theory Spec2Isabelle
  imports Main "HOL-Library.Word" "HOL-Library.Signed_Division"
begin

unbundle bit_operations_syntax

section \<open>Data model of package otp\<close>

text \<open>
  Go's fixed-width integers are machine words: \<open>byte\<close> is \<open>8 word\<close>, \<open>uint32\<close> (and so
  \<open>Digits\<close>) is \<open>32 word\<close>, \<open>int64\<close> is \<open>64 word\<close> read in two's complement by \<open>sint\<close>.
  Go's \<open>int\<close> is taken at its 64-bit width (amd64, arm64), so the conversions
  \<open>int64(t)\<close> and \<open>int(...)\<close> between \<open>int\<close> and \<open>int64\<close> are the identity.
  A \<open>time.Duration\<close> is an \<open>int64\<close> count of nanoseconds.
\<close>

type_synonym byte = "8 word"
type_synonym uint32 = "32 word"
type_synonym int64 = "64 word"
type_synonym Digits = uint32
type_synonym Duration = int64

definition SixDigits :: Digits where
  "SixDigits = 1000000"

definition SevenDigits :: Digits where
  "SevenDigits = SixDigits * 10"

definition EightDigits :: Digits where
  "EightDigits = SevenDigits * 10"

definition DefaultStepSizeSeconds :: int64 where
  "DefaultStepSizeSeconds = 30"

text \<open>The largest and the least \<open>int\<close> (\<open>math.MaxInt64\<close>, \<open>math.MinInt64\<close>).\<close>

definition maxInt :: int64 where
  "maxInt = 0x7fffffffffffffff"

definition minInt :: int64 where
  "minInt = 0x8000000000000000"

text \<open>
  A run-time panic of the Go program is a value; every function that can panic returns
  \<open>panic + 'a\<close>, with \<open>Inl\<close> for the panic.
\<close>

datatype panic =
    NilFuncCall
  | IndexOutOfRange
  | SliceBoundsOutOfRange
  | DivideByZero

subsection \<open>The hash primitive and crypto/hmac\<close>

text \<open>
  A value of type \<open>func() hash.Hash\<close> is a factory of hash states. Of a hash state the
  program observes the digest of the bytes written to it (\<open>Write\<close> then \<open>Sum(nil)\<close>) and
  its \<open>BlockSize()\<close>; the hash primitive itself (crypto/sha1 and so on) is not part of
  this package and stays a parameter. A nil factory is \<open>None\<close>.

  Go bounds a slice expression by the capacity of the slice, not by its length, so
  \<open>sum[offset:offset+4]\<close> can also read what lies behind the digest in the buffer of the
  slice that \<open>Sum(nil)\<close> of the HMAC returns. These bytes are left there by the \<open>Sum\<close>
  methods of the hash and by the allocator; \<open>sumSpare key msg\<close> is that rest of the
  buffer (empty when the slice is returned at its capacity), given with the provider.
\<close>

record hash_provider =
  hashSum :: "byte list \<Rightarrow> byte list"
  hashBlockSize :: nat
  sumSpare :: "byte list \<Rightarrow> byte list \<Rightarrow> byte list"

text \<open>
  \<open>hmac.New(h, key)\<close> of the Go standard library, followed by \<open>Write(msg)\<close> and
  \<open>Sum(nil)\<close> (RFC 2104): a key longer than the block is hashed first, the key is copied
  into a zeroed block, and the digest is \<open>H(opad || H(ipad || msg))\<close>.
\<close>

definition hmacKeyBlock :: "hash_provider \<Rightarrow> byte list \<Rightarrow> byte list" where
  "hmacKeyBlock hp key =
     (let blocksize = hashBlockSize hp;
          k = (if blocksize < length key then hashSum hp key else key)
      in take blocksize k @ replicate (blocksize - length k) 0)"

definition hmacSum :: "hash_provider \<Rightarrow> byte list \<Rightarrow> byte list \<Rightarrow> byte list" where
  "hmacSum hp key msg =
     (let k = hmacKeyBlock hp key;
          ipad = map (\<lambda>b. b XOR 0x36) k;
          opad = map (\<lambda>b. b XOR 0x5c) k
      in hashSum hp (opad @ hashSum hp (ipad @ msg)))"

subsection \<open>encoding/binary, big endian\<close>

text \<open>\<open>binary.Write(h, binary.BigEndian, value)\<close> for an \<open>int64\<close>: eight bytes, most
  significant first, of the two's-complement bit pattern.\<close>

definition PutUint64 :: "int64 \<Rightarrow> byte list" where
  "PutUint64 v =
     [ucast (drop_bit 56 v), ucast (drop_bit 48 v), ucast (drop_bit 40 v),
      ucast (drop_bit 32 v), ucast (drop_bit 24 v), ucast (drop_bit 16 v),
      ucast (drop_bit 8 v), ucast v]"

text \<open>\<open>binary.BigEndian.Uint32(b)\<close> on a slice of four bytes:
  \<open>uint32(b[3]) | uint32(b[2])<<8 | uint32(b[1])<<16 | uint32(b[0])<<24\<close>.\<close>

definition Uint32 :: "byte list \<Rightarrow> uint32" where
  "Uint32 b =
     ucast (b ! 3) OR push_bit 8 (ucast (b ! 2)) OR push_bit 16 (ucast (b ! 1))
       OR push_bit 24 (ucast (b ! 0))"

section \<open>HOTPCode\<close>

text \<open>
  The panics of \<open>HOTPCode\<close>, in the order the code reaches them: calling a nil
  \<open>hashProvider\<close> inside \<open>hmac.New\<close>; \<open>sum[len(sum)-1]\<close> on an empty digest;
  \<open>sum[offset:offset+4]\<close> past the capacity of \<open>sum\<close>, that is past the digest and the
  rest of its buffer; \<open>snip % uint32(digits)\<close> with \<open>digits = 0\<close>. The four bytes of the
  window are read from the buffer, so behind a digest shorter than the window they are
  bytes of \<open>sumSpare\<close>. The \<open>panic(err)\<close> after \<open>binary.Write\<close> is not a branch: writing
  to a hash never returns an error.
\<close>

definition HOTPCode :: "hash_provider option \<Rightarrow> byte list \<Rightarrow> Digits \<Rightarrow> int64 \<Rightarrow> panic + int64" where
  "HOTPCode hashProvider key digits v =
     (case hashProvider of
        None \<Rightarrow> Inl NilFuncCall
      | Some hp \<Rightarrow>
          (let sum = hmacSum hp key (PutUint64 v);
               buffer = sum @ sumSpare hp key (PutUint64 v) in
           if sum = [] then Inl IndexOutOfRange
           else
             (let offset = unat (last sum AND 0x0f) in
              if length buffer < offset + 4 then Inl SliceBoundsOutOfRange
              else
                (let snip = Uint32 (take 4 (drop offset buffer)) AND 0x7fffffff in
                 if digits = 0 then Inl DivideByZero
                 else Inr (ucast (snip mod digits))))))"

section \<open>Time\<close>

text \<open>
  A \<open>time.Time\<close> is observed through \<open>Unix()\<close> and \<open>Add\<close> only: the model keeps the
  Unix seconds and the nanoseconds within the second (\<open>0 \<le> nsec < 10^9\<close>).
  \<open>Add\<close> follows the standard library. The duration is split by truncating division
  into whole seconds and a remainder of the sign of the duration, and the nanoseconds
  carry into the seconds. The library keeps the seconds since the year 1, which are the
  Unix seconds plus \<open>unixToInternal\<close> as \<open>int64\<close>, and \<open>addSec\<close> adds to them: when the
  sum overflows it stops at \<open>1<<63 - 1\<close> or at \<open>-(1<<63 - 1)\<close>, as the test
  \<open>(sum > t.ext) == (d > 0)\<close> of the library decides. \<open>Unix()\<close> subtracts
  \<open>unixToInternal\<close> again.
\<close>

record time =
  sec :: int64
  nsec :: int

definition Unix :: "time \<Rightarrow> int64" where
  "Unix t = sec t"

definition sdiv64 :: "int64 \<Rightarrow> int64 \<Rightarrow> int64" where
  "sdiv64 a b = word_of_int (sint a sdiv sint b)"

definition smod64 :: "int64 \<Rightarrow> int64 \<Rightarrow> int64" where
  "smod64 a b = word_of_int (sint a smod sint b)"

definition unixToInternal :: int64 where
  "unixToInternal = 62135596800"

definition addSec :: "int64 \<Rightarrow> int64 \<Rightarrow> int64" where
  "addSec ext d =
     (let sum = ext + d
      in if (ext <s sum) = (0 <s d) then sum
         else if 0 <s d then maxInt
         else - maxInt)"

definition Add :: "time \<Rightarrow> Duration \<Rightarrow> time" where
  "Add t d =
     (let dsec = sdiv64 d 1000000000;
          ns = nsec t + sint (smod64 d 1000000000);
          (dsec', ns') =
            (if 1000000000 \<le> ns then (dsec + 1, ns - 1000000000)
             else if ns < 0 then (dsec - 1, ns + 1000000000)
             else (dsec, ns))
      in \<lparr>sec = addSec (sec t + unixToInternal) dsec' - unixToInternal, nsec = ns'\<rparr>)"

text \<open>\<open>timeSteps\<close>: \<open>int(t.Unix() / int64(stepSize))\<close>. Go's \<open>/\<close> on integers truncates
  towards zero and panics on a zero divisor.\<close>

definition timeSteps :: "int64 \<Rightarrow> time \<Rightarrow> panic + int64" where
  "timeSteps stepSize t =
     (if stepSize = 0 then Inl DivideByZero else Inr (sdiv64 (Unix t) stepSize))"

section \<open>TOTPCode\<close>

text \<open>The argument \<open>timeSteps(stepSizeSeconds, t)\<close> is evaluated before \<open>HOTPCode\<close> is
  called, so its panic comes first.\<close>

definition TOTPCode ::
  "hash_provider option \<Rightarrow> byte list \<Rightarrow> Digits \<Rightarrow> int64 \<Rightarrow> time \<Rightarrow> panic + int64" where
  "TOTPCode hashProvider key digits stepSizeSeconds t =
     (case timeSteps stepSizeSeconds t of
        Inl p \<Rightarrow> Inl p
      | Inr ts \<Rightarrow> HOTPCode hashProvider key digits ts)"

section \<open>TOTPValidator\<close>

record TOTPValidator =
  Key :: "byte list"
  StepSizeSeconds :: int64
  PastTolerance :: Duration
  FutureTolerance :: Duration
  LastT :: int64
  HashProvider :: "hash_provider option"
  Digits :: Digits

text \<open>
  The loop \<open>for t := tMin; t <= tMax; t++\<close> of \<open>ValidateTOTPCode\<close>, entered at \<open>t\<close>.
  It leaves with \<open>Some t\<close> at \<open>return true, t\<close> and with \<open>None\<close> when its condition
  fails. \<open>t <= tMax\<close> and \<open>t <= tc.LastT\<close> compare signed, and \<open>t++\<close> wraps around at
  the largest \<open>int\<close>, so for \<open>tMax\<close> the largest \<open>int\<close> the condition never fails: the
  loop is a partial function, and not returning is the value \<open>None\<close> of the outer option.
\<close>

partial_function (option) forLoop ::
  "TOTPValidator \<Rightarrow> hash_provider option \<Rightarrow> Digits \<Rightarrow> int64 \<Rightarrow> int64 \<Rightarrow> int64 \<Rightarrow>
     (panic + int64 option) option" where
  "forLoop tc hashProvider digits code tMax t =
     (if t \<le>s tMax then
        (if t \<le>s LastT tc then forLoop tc hashProvider digits code tMax (t + 1)
         else
           (case HOTPCode hashProvider (Key tc) digits t of
              Inl p \<Rightarrow> Some (Inl p)
            | Inr c \<Rightarrow>
                if c = code then Some (Inr (Some t))
                else forLoop tc hashProvider digits code tMax (t + 1)))
      else Some (Inr None))"

declare forLoop.simps [code]

text \<open>
  \<open>ValidateTOTPCode\<close>. The first argument is \<open>sha1.New\<close> of crypto/sha1, the default
  hash provider. The method has a pointer receiver, through which it could write to the
  validator: the result is the pair \<open>(bool, int)\<close> of the method together with the
  validator as the call leaves it. The outer option is \<open>None\<close> when the loop does not
  return.
\<close>

definition ValidateTOTPCode ::
  "hash_provider \<Rightarrow> TOTPValidator \<Rightarrow> time \<Rightarrow> int64 \<Rightarrow>
     (panic + (bool \<times> int64) \<times> TOTPValidator) option" where
  "ValidateTOTPCode sha1New tc now code =
     (let hashProvider = (case HashProvider tc of None \<Rightarrow> Some sha1New | Some hp \<Rightarrow> Some hp);
          digits = (if Digits tc = 0 then SixDigits else Digits tc);
          stepSizeSeconds =
            (if StepSizeSeconds tc = 0 then DefaultStepSizeSeconds else StepSizeSeconds tc)
      in case timeSteps stepSizeSeconds (Add now (- PastTolerance tc)) of
           Inl p \<Rightarrow> Some (Inl p)
         | Inr tMin \<Rightarrow>
             (case timeSteps stepSizeSeconds (Add now (FutureTolerance tc)) of
                Inl p \<Rightarrow> Some (Inl p)
              | Inr tMax \<Rightarrow>
                  (case forLoop tc hashProvider digits code tMax tMin of
                     None \<Rightarrow> None
                   | Some (Inl p) \<Rightarrow> Some (Inl p)
                   | Some (Inr (Some t)) \<Rightarrow> Some (Inr ((True, t), tc))
                   | Some (Inr None) \<Rightarrow>
                       (case timeSteps stepSizeSeconds now of
                          Inl p \<Rightarrow> Some (Inl p)
                        | Inr cur \<Rightarrow> Some (Inr ((False, cur), tc))))))"

text \<open>What the caller sees of a call: the returned pair, or the panic.\<close>

definition returned ::
  "(panic + (bool \<times> int64) \<times> TOTPValidator) option \<Rightarrow> (panic + bool \<times> int64) option" where
  "returned r = map_option (map_sum id fst) r"

section \<open>The configuration a call works with\<close>

text \<open>The hash provider, modulus and step size of a validator after the defaults of
  \<open>ValidateTOTPCode\<close>, and the code it generates at a counter.\<close>

definition hashOf :: "hash_provider \<Rightarrow> TOTPValidator \<Rightarrow> hash_provider option" where
  "hashOf sha1New tc = (case HashProvider tc of None \<Rightarrow> Some sha1New | Some hp \<Rightarrow> Some hp)"

definition digitsOf :: "TOTPValidator \<Rightarrow> Digits" where
  "digitsOf tc = (if Digits tc = 0 then SixDigits else Digits tc)"

definition stepOf :: "TOTPValidator \<Rightarrow> int64" where
  "stepOf tc = (if StepSizeSeconds tc = 0 then DefaultStepSizeSeconds else StepSizeSeconds tc)"

definition codeAt :: "hash_provider \<Rightarrow> TOTPValidator \<Rightarrow> int64 \<Rightarrow> panic + int64" where
  "codeAt sha1New tc t = HOTPCode (hashOf sha1New tc) (Key tc) (digitsOf tc) t"

section \<open>RFC 4226 in the words of the specification\<close>

text \<open>
  The algorithm as the specification words it, on natural numbers and integers instead of
  machine words: the eight bytes of the counter, most significant first, are the base-256
  digits of its two's complement \<open>counter mod 2^64\<close>; the offset is the low nibble of the
  last byte of the digest; the four bytes at the offset are read as a big-endian number,
  the sign bit is cleared (the remainder modulo \<open>2^31\<close>), and the code is the remainder
  modulo the digit count.
\<close>

definition beBytes8 :: "nat \<Rightarrow> byte list" where
  "beBytes8 n =
     [of_nat (n div 256 ^ 7 mod 256), of_nat (n div 256 ^ 6 mod 256),
      of_nat (n div 256 ^ 5 mod 256), of_nat (n div 256 ^ 4 mod 256),
      of_nat (n div 256 ^ 3 mod 256), of_nat (n div 256 ^ 2 mod 256),
      of_nat (n div 256 mod 256), of_nat (n mod 256)]"

definition beValue :: "byte list \<Rightarrow> nat" where
  "beValue bs = foldl (\<lambda>acc b. acc * 256 + unat b) 0 bs"

definition rfc4226 :: "hash_provider \<Rightarrow> byte list \<Rightarrow> nat \<Rightarrow> int \<Rightarrow> nat" where
  "rfc4226 hp secret digit_count counter =
     (let message = beBytes8 (nat (counter mod 2 ^ 64));
          digest = hmacSum hp secret message;
          offset = unat (last digest) mod 16;
          val = beValue (take 4 (drop offset digest)) mod 2 ^ 31
      in val mod digit_count)"

text \<open>Truncating division of integers, written out: the quotient of the absolute
  values, negated when the dividend is negative (the divisor is positive where it is
  used).\<close>

definition truncDiv :: "int \<Rightarrow> int \<Rightarrow> int" where
  "truncDiv a b = (if 0 \<le> a then a div b else - ((- a) div b))"

text \<open>A validator configured with SHA-1, six digits and a 30-second step wherever the
  given one leaves the field unset.\<close>

definition withDefaults :: "hash_provider \<Rightarrow> TOTPValidator \<Rightarrow> TOTPValidator" where
  "withDefaults sha1New tc =
     tc\<lparr>HashProvider := (case HashProvider tc of None \<Rightarrow> Some sha1New | Some hp \<Rightarrow> Some hp),
        Digits := (if Digits tc = 0 then 1000000 else Digits tc),
        StepSizeSeconds := (if StepSizeSeconds tc = 0 then 30 else StepSizeSeconds tc)\<rparr>"

section \<open>Inputs to run the code on\<close>

text \<open>
  The package is run on the inputs of its own tests, so the default hash provider is
  written out: \<open>sha1_New\<close> is SHA-1 (FIPS 180-4) with its block size of 64 bytes, as
  crypto/sha1 provides it. A message is padded by the byte \<open>0x80\<close>, zero bytes up to 56
  modulo 64 and its length in bits as 8 bytes; every block of 64 bytes is expanded to 80
  words (kept last word first while they are built) and run through the 80 rounds. The
  masks \<open>AND 0xFFFFFFFF\<close> are the identity on 32-bit words; they keep the numerals in
  range where the functions are evaluated. \<open>Sum\<close> of crypto/sha1 appends its 20 bytes to
  the slice it is given, for a nil slice in an allocation of 24 bytes, which the HMAC uses
  for both of its hashes: four zero bytes lie behind the digest.
\<close>

definition rotl :: "nat \<Rightarrow> uint32 \<Rightarrow> uint32" where
  "rotl n w = (push_bit n w OR drop_bit (32 - n) w) AND 0xFFFFFFFF"

fun be32 :: "byte list \<Rightarrow> uint32 list" where
  "be32 (a # b # c # d # bs) = Uint32 [a, b, c, d] # be32 bs"
| "be32 _ = []"

definition PutUint32 :: "uint32 \<Rightarrow> byte list" where
  "PutUint32 v = [ucast (drop_bit 24 v), ucast (drop_bit 16 v), ucast (drop_bit 8 v), ucast v]"

definition sha1Pad :: "byte list \<Rightarrow> byte list" where
  "sha1Pad m =
     m @ [0x80] @ replicate ((119 - length m mod 64) mod 64) 0
       @ PutUint64 (of_nat (8 * length m))"

fun sha1Schedule :: "nat \<Rightarrow> uint32 list \<Rightarrow> uint32 list" where
  "sha1Schedule 0 ws = ws"
| "sha1Schedule (Suc n) ws =
     sha1Schedule n (rotl 1 (ws ! 2 XOR ws ! 7 XOR ws ! 13 XOR ws ! 15) # ws)"

type_synonym sha1State = "uint32 \<times> uint32 \<times> uint32 \<times> uint32 \<times> uint32"

fun sha1Round :: "sha1State \<Rightarrow> nat \<times> uint32 \<Rightarrow> sha1State" where
  "sha1Round (a, b, c, d, e) (i, w) =
     (let (f, k) =
            (if i < 20 then ((b AND c) OR (NOT b AND d), 0x5A827999)
             else if i < 40 then (b XOR c XOR d, 0x6ED9EBA1)
             else if i < 60 then ((b AND c) OR (b AND d) OR (c AND d), 0x8F1BBCDC)
             else (b XOR c XOR d, 0xCA62C1D6))
      in ((rotl 5 a + f + e + k + w) AND 0xFFFFFFFF, a, rotl 30 b, c, d))"

fun sha1Rounds :: "nat \<Rightarrow> sha1State \<Rightarrow> uint32 list \<Rightarrow> sha1State" where
  "sha1Rounds i st [] = st"
| "sha1Rounds i st (w # ws) = sha1Rounds (Suc i) (sha1Round st (i, w)) ws"

fun sha1Block :: "sha1State \<Rightarrow> byte list \<Rightarrow> sha1State" where
  "sha1Block (h0, h1, h2, h3, h4) block =
     (let ws = rev (sha1Schedule 64 (rev (be32 block)));
          (a, b, c, d, e) = sha1Rounds 0 (h0, h1, h2, h3, h4) ws
      in ((h0 + a) AND 0xFFFFFFFF, (h1 + b) AND 0xFFFFFFFF, (h2 + c) AND 0xFFFFFFFF,
          (h3 + d) AND 0xFFFFFFFF, (h4 + e) AND 0xFFFFFFFF))"

fun sha1Blocks :: "nat \<Rightarrow> sha1State \<Rightarrow> byte list \<Rightarrow> sha1State" where
  "sha1Blocks 0 h m = h"
| "sha1Blocks (Suc n) h m = sha1Blocks n (sha1Block h (take 64 m)) (drop 64 m)"

definition sha1Sum :: "byte list \<Rightarrow> byte list" where
  "sha1Sum m =
     (let p = sha1Pad m;
          (h0, h1, h2, h3, h4) =
            sha1Blocks (length p div 64)
              (0x67452301, 0xEFCDAB89, 0x98BADCFE, 0x10325476, 0xC3D2E1F0) p
      in PutUint32 h0 @ PutUint32 h1 @ PutUint32 h2 @ PutUint32 h3 @ PutUint32 h4)"

definition sha1_New :: hash_provider where
  "sha1_New =
     \<lparr>hashSum = sha1Sum, hashBlockSize = 64, sumSpare = (\<lambda>key msg. replicate 4 0)\<rparr>"

text \<open>
  The key of the tests, \<open>[]byte("12345678901234567890")\<close>, and a validator with that key
  and nothing else set but the step size, the two tolerances (in nanoseconds) and the
  floor. \<open>exampleValidator 0\<close>, with tolerances of 30 seconds, is the validator of
  \<open>Example\<close> in the tests of the package. \<open>atSecond s\<close> is the instant \<open>time.Unix(s, 0)\<close>.
\<close>

definition rfcKey :: "byte list" where
  "rfcKey = [0x31, 0x32, 0x33, 0x34, 0x35, 0x36, 0x37, 0x38, 0x39, 0x30,
             0x31, 0x32, 0x33, 0x34, 0x35, 0x36, 0x37, 0x38, 0x39, 0x30]"

definition testValidator :: "int64 \<Rightarrow> Duration \<Rightarrow> Duration \<Rightarrow> int64 \<Rightarrow> TOTPValidator" where
  "testValidator stepSize past future lastT =
     \<lparr>Key = rfcKey, StepSizeSeconds = stepSize, PastTolerance = past,
      FutureTolerance = future, LastT = lastT, HashProvider = None, Digits = 0\<rparr>"

abbreviation exampleValidator :: "int64 \<Rightarrow> TOTPValidator" where
  "exampleValidator lastT \<equiv> testValidator 0 30000000000 30000000000 lastT"

definition atSecond :: "int64 \<Rightarrow> time" where
  "atSecond s = \<lparr>sec = s, nsec = 0\<rparr>"

section \<open>Machine arithmetic\<close>

lemma unat_and_0f: "unat ((x :: byte) AND 0x0f) = unat x mod 16"
proof -
  have "x AND 0x0f = take_bit 4 x" by (simp add: take_bit_eq_mask mask_eq_exp_minus_1)
  moreover have "unat (take_bit 4 x) = take_bit 4 (unat x)" by (rule unsigned_take_bit_eq)
  moreover have "take_bit 4 (unat x) = unat x mod 16" by (simp add: take_bit_eq_mod)
  ultimately show ?thesis by (simp only:)
qed

lemma unat_and_7fffffff: "unat ((x :: uint32) AND 0x7fffffff) = unat x mod 2 ^ 31"
proof -
  have "x AND 0x7fffffff = take_bit 31 x" by (simp add: take_bit_eq_mask mask_eq_exp_minus_1)
  moreover have "unat (take_bit 31 x) = take_bit 31 (unat x)" by (rule unsigned_take_bit_eq)
  moreover have "take_bit 31 (unat x) = unat x mod 2 ^ 31" by (simp only: take_bit_eq_mod)
  ultimately show ?thesis by (simp only:)
qed

lemma sint_ucast_32_64: "sint (ucast (w :: uint32) :: int64) = uint w"
proof -
  have "uint w < 2 ^ 32" using uint_lt2p [of w] by simp
  then have "uint w < 2 ^ 63" by simp
  moreover have "- (2 ^ 63) \<le> uint w" by (rule order_trans [of _ 0]) simp_all
  moreover have "sint (ucast w :: int64) = signed_take_bit 63 (uint w)"
    by (simp add: signed_ucast_eq)
  ultimately show ?thesis by (simp only: signed_take_bit_int_eq_self)
qed

lemma unat_byte_of: "unat (ucast (drop_bit k (v :: int64)) :: byte) = unat v div 2 ^ k mod 256"
proof -
  have "unat (ucast (drop_bit k v) :: byte) = take_bit 8 (unat (drop_bit k v))"
    by (simp add: unsigned_ucast_eq)
  also have "unat (drop_bit k v) = drop_bit k (unat v)" by (rule unat_drop_bit_eq)
  finally show ?thesis by (simp add: take_bit_eq_mod drop_bit_eq_div)
qed

lemma or_push_bit_8:
  fixes x y :: int
  assumes "0 \<le> x" "x < 256"
  shows "x OR push_bit 8 y = x + 256 * y"
proof -
  have "take_bit 8 x = x" using assms by (simp add: take_bit_int_eq_self)
  then have "x OR push_bit 8 y = concat_bit 8 x y" by (simp add: concat_bit_def)
  also have "\<dots> = take_bit 8 x + push_bit 8 y" by (rule concat_bit_eq)
  finally show ?thesis using \<open>take_bit 8 x = x\<close> by (simp add: push_bit_eq_mult)
qed

lemma uint_byte_bounds: "0 \<le> uint (x :: byte) \<and> uint x < 256"
  using uint_lt2p [of x] by simp

lemma uint_push_ucast:
  assumes "k \<le> 24"
  shows "uint (push_bit k (ucast (x :: byte) :: uint32)) = push_bit k (uint x)"
proof -
  have u: "uint (ucast x :: uint32) = uint x"
    by (simp add: uint_up_ucast is_up)
  have "uint x < 2 ^ 8" using uint_lt2p [of x] by simp
  then have "push_bit k (uint x) < 2 ^ k * 2 ^ 8" by (simp add: push_bit_eq_mult)
  also have "\<dots> = (2 :: int) ^ (k + 8)" by (simp add: power_add)
  also have "\<dots> \<le> 2 ^ 32" using assms by (intro power_increasing) simp_all
  finally have lt: "push_bit k (uint x) < 2 ^ 32" .
  have ge: "0 \<le> push_bit k (uint x)" by (simp add: push_bit_eq_mult)
  have "uint (push_bit k (ucast x :: uint32)) = take_bit 32 (push_bit k (uint x))"
    by (simp only: unsigned_push_bit_eq u) simp
  also have "\<dots> = push_bit k (uint x)" using ge lt by (rule take_bit_int_eq_self)
  finally show ?thesis .
qed

lemma uint_Uint32: "uint (Uint32 [a, b, c, e]) = ((uint a * 256 + uint b) * 256 + uint c) * 256 + uint e"
proof -
  have e: "uint (ucast e :: uint32) = uint e"
    by (simp add: uint_up_ucast is_up)
  have "uint (Uint32 [a, b, c, e]) =
      uint e OR push_bit 8 (uint c) OR push_bit 16 (uint b) OR push_bit 24 (uint a)"
    unfolding Uint32_def by (simp add: unsigned_or_eq e uint_push_ucast)
  also have "\<dots> = uint e OR push_bit 8 (uint c OR push_bit 8 (uint b OR push_bit 8 (uint a)))"
    by (simp add: push_bit_or push_bit_push_bit or.assoc)
  also have "\<dots> = ((uint a * 256 + uint b) * 256 + uint c) * 256 + uint e"
    using uint_byte_bounds [of e] uint_byte_bounds [of c] uint_byte_bounds [of b] by (simp add: or_push_bit_8)
  finally show ?thesis .
qed

lemma unat_sint_mod: "nat (sint (v :: int64) mod 2 ^ 64) = unat v"
proof -
  have "uint v = sint v mod 2 ^ 64" by (simp add: uint_sint take_bit_eq_mod)
  then show ?thesis by (simp add: unat_eq_nat_uint)
qed

lemma list4: "length bs = 4 \<Longrightarrow> \<exists>a b c e. bs = [a, b, c, e]"
  by (auto simp: length_Suc_conv eval_nat_numeral)

lemma uint_Uint32_beValue:
  assumes "length bs = 4"
  shows "uint (Uint32 bs) = int (beValue bs)"
proof -
  from assms obtain a b c e where bs: "bs = [a, b, c, e]" using list4 by blast
  show ?thesis unfolding bs by (simp add: uint_Uint32 beValue_def)
qed

lemma PutUint64_beBytes8: "PutUint64 v = beBytes8 (nat (sint v mod 2 ^ 64))"
proof -
  have b: "(ucast (drop_bit k v) :: byte) = of_nat (unat v div 2 ^ k mod 256)" for k
    by (rule unsigned_word_eqI [where ?'a = nat]) (simp add: unat_byte_of unat_of_nat)
  have b0: "(ucast v :: byte) = of_nat (unat v mod 256)"
    using b [of 0] by simp
  show ?thesis
    unfolding unat_sint_mod PutUint64_def beBytes8_def
    by (simp add: b b0)
qed

lemma hmacSum_length: "\<forall>m. 20 \<le> length (hashSum hp m) \<Longrightarrow> 20 \<le> length (hmacSum hp key msg)"
  by (simp add: hmacSum_def Let_def)

lemma window_in_digest:
  "offset + 4 \<le> length digest \<Longrightarrow>
     take 4 (drop offset (digest @ spare)) = take 4 (drop offset digest)"
  by simp

lemma HOTPCode_spec:
  assumes len: "\<forall>m. 20 \<le> length (hashSum hp m)" and d: "digits \<noteq> 0"
  shows "\<exists>c. HOTPCode (Some hp) key digits v = Inr c \<and>
             sint c = int (rfc4226 hp key (unat digits) (sint v))"
proof -
  define sum where "sum = hmacSum hp key (PutUint64 v)"
  define buffer where "buffer = sum @ sumSpare hp key (PutUint64 v)"
  define offset where "offset = unat (last sum AND 0x0f)"
  define bs where "bs = take 4 (drop offset sum)"
  define snip where "snip = Uint32 bs AND 0x7fffffff"
  have l20: "20 \<le> length sum" unfolding sum_def using len by (rule hmacSum_length)
  then have ne: "sum \<noteq> []" by auto
  have off: "offset = unat (last sum) mod 16" unfolding offset_def by (rule unat_and_0f)
  then have "offset < 16" by simp
  with l20 have inside: "offset + 4 \<le> length sum" by simp
  then have fit: "\<not> length buffer < offset + 4" by (simp add: buffer_def)
  have win: "take 4 (drop offset buffer) = bs"
    unfolding buffer_def bs_def using inside by (rule window_in_digest)
  have l4: "length bs = 4" unfolding bs_def using inside by simp
  have code: "HOTPCode (Some hp) key digits v = Inr (ucast (snip mod digits))"
    using ne fit d
    by (simp add: HOTPCode_def Let_def sum_def [symmetric] buffer_def [symmetric]
        offset_def [symmetric] win snip_def [symmetric])
  have "unat snip = unat (Uint32 bs) mod 2 ^ 31" unfolding snip_def by (rule unat_and_7fffffff)
  also have "unat (Uint32 bs) = beValue bs"
    using uint_Uint32_beValue [OF l4] by (simp add: unat_eq_nat_uint)
  finally have s: "unat snip = beValue bs mod 2 ^ 31" .
  have "sint (ucast (snip mod digits) :: int64) = uint (snip mod digits)"
    by (rule sint_ucast_32_64)
  also have "\<dots> = int (unat snip mod unat digits)"
    by (simp flip: unat_mod)
  also have "unat snip mod unat digits = rfc4226 hp key (unat digits) (sint v)"
    unfolding rfc4226_def Let_def PutUint64_beBytes8 [symmetric] sum_def [symmetric]
      off [symmetric] bs_def [symmetric] s ..
  finally show ?thesis using code by blast
qed

section \<open>The loop\<close>

lemma sint_succ: "sint (t :: int64) < 9223372036854775807 \<Longrightarrow> sint (t + 1) = sint t + 1"
proof -
  assume a: "sint t < 9223372036854775807"
  have lo: "- 9223372036854775808 \<le> sint t" using sint_ge [of t] by simp
  have "sint (t + 1) = signed_take_bit 63 (sint t + 1)"
    by (simp add: sint_word_ariths)
  also have "\<dots> = sint t + 1"
    by (rule signed_take_bit_int_eq_self) (use a lo in simp_all)
  finally show ?thesis .
qed

lemma sint_maxInt: "sint maxInt = 9223372036854775807"
  by (simp add: maxInt_def)

lemma sint_le_maxInt: "sint (t :: int64) \<le> 9223372036854775807"
  using sint_lt [of t] by simp

lemma neq_maxInt: "t \<noteq> maxInt \<Longrightarrow> sint (t::int64) < 9223372036854775807"
proof -
  assume "t \<noteq> maxInt"
  then have "sint t \<noteq> sint maxInt" by (auto dest: signed_word_eqI)
  then show ?thesis using sint_le_maxInt [of t] by (simp add: sint_maxInt)
qed

lemma sint_succ_le: "t \<le>s tMax \<Longrightarrow> tMax \<noteq> maxInt \<Longrightarrow> sint (t + 1) = sint t + 1"
  by (rule sint_succ) (use neq_maxInt [of tMax] in \<open>simp add: word_sle_eq\<close>)

lemma forLoop_exit: "\<not> t \<le>s tMax \<Longrightarrow> forLoop tc hp d code tMax t = Some (Inr None)"
  by (subst forLoop.simps) simp

lemma forLoop_skip:
  "t \<le>s tMax \<Longrightarrow> t \<le>s LastT tc \<Longrightarrow>
   forLoop tc hp d code tMax t = forLoop tc hp d code tMax (t + 1)"
  by (subst forLoop.simps) simp

lemma forLoop_hit:
  "t \<le>s tMax \<Longrightarrow> \<not> t \<le>s LastT tc \<Longrightarrow> HOTPCode hp (Key tc) d t = Inr code \<Longrightarrow>
   forLoop tc hp d code tMax t = Some (Inr (Some t))"
  by (subst forLoop.simps) simp

lemma forLoop_miss:
  "t \<le>s tMax \<Longrightarrow> \<not> t \<le>s LastT tc \<Longrightarrow> HOTPCode hp (Key tc) d t = Inr c \<Longrightarrow> c \<noteq> code \<Longrightarrow>
   forLoop tc hp d code tMax t = forLoop tc hp d code tMax (t + 1)"
  by (subst forLoop.simps) simp

lemma forLoop_panic:
  "t \<le>s tMax \<Longrightarrow> \<not> t \<le>s LastT tc \<Longrightarrow> HOTPCode hp (Key tc) d t = Inl p \<Longrightarrow>
   forLoop tc hp d code tMax t = Some (Inl p)"
  by (subst forLoop.simps) simp

lemma forLoop_no_match:
  assumes "tMax \<noteq> maxInt"
    and "\<forall>t'. t \<le>s t' \<and> t' \<le>s tMax \<and> LastT tc <s t' \<longrightarrow> (\<exists>c. HOTPCode hp (Key tc) d t' = Inr c \<and> c \<noteq> code)"
  shows "forLoop tc hp d code tMax t = Some (Inr None)"
  using assms(2)
proof (induction "nat (sint tMax + 1 - sint t)" arbitrary: t)
  case 0
  then have "\<not> t \<le>s tMax" by (simp add: word_sle_eq)
  then show ?case by (rule forLoop_exit)
next
  case (Suc n)
  then have le: "t \<le>s tMax" by (simp add: word_sle_eq)
  have s: "sint (t + 1) = sint t + 1" using le assms(1) by (rule sint_succ_le)
  have n: "n = nat (sint tMax + 1 - sint (t + 1))" using Suc(2) s by simp
  have rest: "\<forall>t'. t + 1 \<le>s t' \<and> t' \<le>s tMax \<and> LastT tc <s t' \<longrightarrow> (\<exists>c. HOTPCode hp (Key tc) d t' = Inr c \<and> c \<noteq> code)"
    using Suc(3) s by (simp add: word_sle_eq)
  have IH: "forLoop tc hp d code tMax (t + 1) = Some (Inr None)"
    using Suc(1) [OF n rest] .
  show ?case
  proof (cases "t \<le>s LastT tc")
    case True
    show ?thesis unfolding forLoop_skip [OF le True] by (rule IH)
  next
    case False
    then have "LastT tc <s t" by (simp add: word_sle_eq word_sless_alt)
    moreover have "t \<le>s t" by (simp add: word_sle_eq)
    ultimately obtain c where c: "HOTPCode hp (Key tc) d t = Inr c" "c \<noteq> code"
      using Suc(3) le by blast
    show ?thesis unfolding forLoop_miss [OF le False c] by (rule IH)
  qed
qed

lemma forLoop_first_match:
  assumes "t \<le>s t0" "t0 \<le>s tMax" "LastT tc <s t0" "HOTPCode hp (Key tc) d t0 = Inr code"
    and "\<forall>t'. t \<le>s t' \<and> t' <s t0 \<and> LastT tc <s t' \<longrightarrow> (\<exists>c. HOTPCode hp (Key tc) d t' = Inr c \<and> c \<noteq> code)"
  shows "forLoop tc hp d code tMax t = Some (Inr (Some t0))"
  using assms(1,5)
proof (induction "nat (sint t0 - sint t)" arbitrary: t)
  case 0
  then have "sint t = sint t0" by (simp add: word_sle_eq)
  then have "t = t0" by (rule signed_word_eqI)
  moreover have "\<not> t0 \<le>s LastT tc" using assms(3) by (simp add: word_sle_eq word_sless_alt)
  ultimately show ?case using forLoop_hit [OF assms(2) _ assms(4)] by simp
next
  case (Suc n)
  then have lt: "sint t < sint t0" by simp
  have le: "t \<le>s tMax" using lt assms(2) by (simp add: word_sle_eq)
  have s: "sint (t + 1) = sint t + 1"
    by (rule sint_succ) (use lt sint_le_maxInt [of t0] in simp)
  have n: "n = nat (sint t0 - sint (t + 1))" using Suc(2) s by simp
  have le1: "t + 1 \<le>s t0" using lt s by (simp add: word_sle_eq)
  have rest: "\<forall>t'. t + 1 \<le>s t' \<and> t' <s t0 \<and> LastT tc <s t' \<longrightarrow> (\<exists>c. HOTPCode hp (Key tc) d t' = Inr c \<and> c \<noteq> code)"
    using Suc(4) s by (simp add: word_sle_eq)
  have IH: "forLoop tc hp d code tMax (t + 1) = Some (Inr (Some t0))"
    using Suc(1) [OF n le1 rest] .
  show ?case
  proof (cases "t \<le>s LastT tc")
    case True
    show ?thesis unfolding forLoop_skip [OF le True] by (rule IH)
  next
    case False
    then have "LastT tc <s t" by (simp add: word_sle_eq word_sless_alt)
    moreover have "t \<le>s t" by (simp add: word_sle_eq)
    moreover have "t <s t0" using lt by (simp add: word_sless_alt)
    ultimately obtain c where c: "HOTPCode hp (Key tc) d t = Inr c" "c \<noteq> code"
      using Suc(4) by blast
    show ?thesis unfolding forLoop_miss [OF le False c] by (rule IH)
  qed
qed


lemma forLoop_Some_sound:
  assumes "forLoop tc hp d code tMax t = Some (Inr (Some t0))"
  shows "LastT tc <s t0 \<and> HOTPCode hp (Key tc) d t0 = Inr code"
proof -
  have "y = Inr (Some t0) \<longrightarrow> LastT tc <s t0 \<and> HOTPCode hp (Key tc) d t0 = Inr code"
    if h: "forLoop tc hp d code tMax t = Some y" for y
  proof (rule forLoop.raw_induct
      [where P = "\<lambda>tc hp d code tMax t y.
         y = Inr (Some t0) \<longrightarrow> LastT tc <s t0 \<and> HOTPCode hp (Key tc) d t0 = Inr code", OF _ h])
    fix f tc hp d code tMax t y
    assume IH: "\<And>tc hp d code tMax t y. f tc hp d code tMax t = Some y \<Longrightarrow>
        y = Inr (Some t0) \<longrightarrow> LastT tc <s t0 \<and> HOTPCode hp (Key tc) d t0 = Inr code"
      and step: "(if t \<le>s tMax
        then if t \<le>s LastT tc then f tc hp d code tMax (t + 1)
             else case HOTPCode hp (Key tc) d t of
                    Inl p \<Rightarrow> Some (Inl p)
                  | Inr c \<Rightarrow> if c = code then Some (Inr (Some t)) else f tc hp d code tMax (t + 1)
        else Some (Inr None)) = Some y"
    show "y = Inr (Some t0) \<longrightarrow> LastT tc <s t0 \<and> HOTPCode hp (Key tc) d t0 = Inr code"
      using step IH [of tc hp d code tMax "t + 1" y]
      by (auto simp: word_sle_eq word_sless_alt split: if_splits sum.splits)
  qed
  with assms show ?thesis by simp
qed

lemma forLoop_panic_sound:
  assumes "forLoop tc hp d code tMax t = Some (Inl p)"
  shows "\<exists>t'. HOTPCode hp (Key tc) d t' = Inl p"
proof -
  have "y = Inl p \<longrightarrow> (\<exists>t'. HOTPCode hp (Key tc) d t' = Inl p)"
    if h: "forLoop tc hp d code tMax t = Some y" for y
  proof (rule forLoop.raw_induct
      [where P = "\<lambda>tc hp d code tMax t y.
         y = Inl p \<longrightarrow> (\<exists>t'. HOTPCode hp (Key tc) d t' = Inl p)", OF _ h])
    fix f tc hp d code tMax t y
    assume IH: "\<And>tc hp d code tMax t y. f tc hp d code tMax t = Some y \<Longrightarrow>
        y = Inl p \<longrightarrow> (\<exists>t'. HOTPCode hp (Key tc) d t' = Inl p)"
      and step: "(if t \<le>s tMax
        then if t \<le>s LastT tc then f tc hp d code tMax (t + 1)
             else case HOTPCode hp (Key tc) d t of
                    Inl p \<Rightarrow> Some (Inl p)
                  | Inr c \<Rightarrow> if c = code then Some (Inr (Some t)) else f tc hp d code tMax (t + 1)
        else Some (Inr None)) = Some y"
    show "y = Inl p \<longrightarrow> (\<exists>t'. HOTPCode hp (Key tc) d t' = Inl p)"
      using step IH [of tc hp d code tMax "t + 1" y]
      by (auto split: if_splits sum.splits)
  qed
  with assms show ?thesis by simp
qed

text \<open>the loop reads only Key and LastT of the validator\<close>
lemma forLoop_cong_Some:
  assumes "forLoop tc hp d code tMax t = Some y" "Key tc' = Key tc" "LastT tc' = LastT tc"
  shows "forLoop tc' hp d code tMax t = Some y"
proof -
  have "\<forall>tc' :: TOTPValidator. Key tc' = Key tc \<and> LastT tc' = LastT tc \<longrightarrow> forLoop tc' hp d code tMax t = Some y"
    using assms(1)
  proof (rule forLoop.raw_induct
      [where P = "\<lambda>tc hp d code tMax t y.
         \<forall>tc' :: TOTPValidator. Key tc' = Key tc \<and> LastT tc' = LastT tc \<longrightarrow> forLoop tc' hp d code tMax t = Some y", rotated 1])
    fix f tc hp d code tMax t y
    assume IH: "\<And>tc hp d code tMax t y. f tc hp d code tMax t = Some y \<Longrightarrow>
        \<forall>tc' :: TOTPValidator. Key tc' = Key tc \<and> LastT tc' = LastT tc \<longrightarrow> forLoop tc' hp d code tMax t = Some y"
      and step: "(if t \<le>s tMax
        then if t \<le>s LastT tc then f tc hp d code tMax (t + 1)
             else case HOTPCode hp (Key tc) d t of
                    Inl p \<Rightarrow> Some (Inl p)
                  | Inr c \<Rightarrow> if c = code then Some (Inr (Some t)) else f tc hp d code tMax (t + 1)
        else Some (Inr None)) = Some y"
    show "\<forall>tc' :: TOTPValidator. Key tc' = Key tc \<and> LastT tc' = LastT tc \<longrightarrow> forLoop tc' hp d code tMax t = Some y"
    proof (intro allI impI)
      fix tc' :: TOTPValidator assume eq: "Key tc' = Key tc \<and> LastT tc' = LastT tc"
      show "forLoop tc' hp d code tMax t = Some y"
        using step eq IH [of tc hp d code tMax "t + 1" y]
        by (subst forLoop.simps) (auto split: if_splits sum.splits)
    qed
  qed
  with assms show ?thesis by simp
qed

lemma forLoop_cong:
  assumes "Key tc' = Key tc" "LastT tc' = LastT tc"
  shows "forLoop tc' hp d code tMax t = forLoop tc hp d code tMax t"
proof (cases "forLoop tc hp d code tMax t")
  case (Some y)
  from forLoop_cong_Some [OF Some assms] Some show ?thesis by simp
next
  case None
  show ?thesis
  proof (cases "forLoop tc' hp d code tMax t")
    case (Some y)
    from forLoop_cong_Some [OF Some assms [symmetric]] None show ?thesis by simp
  next
    case None': None
    with None show ?thesis by simp
  qed
qed

text \<open>characterisation when the loop cannot wrap\<close>
lemma forLoop_match_only_if:
  assumes "tMax \<noteq> maxInt"
  shows "forLoop tc hp d code tMax t = Some (Inr (Some t0)) \<Longrightarrow>
     t \<le>s t0 \<and> t0 \<le>s tMax \<and>
      (\<forall>t'. t \<le>s t' \<and> t' <s t0 \<and> LastT tc <s t' \<longrightarrow> (\<exists>c. HOTPCode hp (Key tc) d t' = Inr c \<and> c \<noteq> code))"
proof (induction "nat (sint tMax + 1 - sint t)" arbitrary: t)
  case 0
  then have "\<not> t \<le>s tMax" by (simp add: word_sle_eq)
  then have "forLoop tc hp d code tMax t = Some (Inr None)" by (rule forLoop_exit)
  with 0(2) show ?case by simp
next
  case (Suc n)
  then have le: "t \<le>s tMax" by (simp add: word_sle_eq)
  have s: "sint (t + 1) = sint t + 1" using le assms(1) by (rule sint_succ_le)
  have n: "n = nat (sint tMax + 1 - sint (t + 1))" using Suc(2) s by simp
  note IH = Suc(1) [OF n]
  have step: "?case" if L: "forLoop tc hp d code tMax (t + 1) = Some (Inr (Some t0))"
    and here: "LastT tc <s t \<Longrightarrow> \<exists>c. HOTPCode hp (Key tc) d t = Inr c \<and> c \<noteq> code"
  proof -
    from IH [OF L] have R1: "t + 1 \<le>s t0" and R2: "t0 \<le>s tMax"
      and R3: "\<And>t'. t + 1 \<le>s t' \<Longrightarrow> t' <s t0 \<Longrightarrow> LastT tc <s t' \<Longrightarrow>
                 \<exists>c. HOTPCode hp (Key tc) d t' = Inr c \<and> c \<noteq> code"
      by blast+
    have a: "t \<le>s t0" using R1 s by (simp add: word_sle_eq)
    have b: "\<exists>c. HOTPCode hp (Key tc) d t' = Inr c \<and> c \<noteq> code"
      if w: "t \<le>s t'" "t' <s t0" "LastT tc <s t'" for t'
    proof (cases "t' = t")
      case True
      with here w show ?thesis by simp
    next
      case False
      then have "sint t' \<noteq> sint t" by (auto dest: signed_word_eqI)
      with w(1) have "t + 1 \<le>s t'" using s by (simp add: word_sle_eq)
      then show ?thesis using w(2,3) by (rule R3)
    qed
    from a R2 b show ?thesis by blast
  qed
  show ?case
  proof (cases "t \<le>s LastT tc")
    case True
    have L: "forLoop tc hp d code tMax (t + 1) = Some (Inr (Some t0))"
      using Suc(3) unfolding forLoop_skip [OF le True] .
    from True have "\<not> LastT tc <s t" by (simp add: word_sle_eq word_sless_alt)
    with L show ?thesis by (intro step) simp_all
  next
    case False
    show ?thesis
    proof (cases "HOTPCode hp (Key tc) d t")
      case (Inl p)
      show ?thesis using Suc(3) unfolding forLoop_panic [OF le False Inl] by simp
    next
      case (Inr c)
      show ?thesis
      proof (cases "c = code")
        case True
        have "t0 = t"
          using Suc(3) Inr True unfolding forLoop_hit [OF le False Inr [unfolded True]] by simp
        with le show ?thesis by (auto simp: word_sle_eq word_sless_alt)
      next
        case ne: False
        have L: "forLoop tc hp d code tMax (t + 1) = Some (Inr (Some t0))"
          using Suc(3) unfolding forLoop_miss [OF le False Inr ne] .
        from Inr ne have "\<exists>c. HOTPCode hp (Key tc) d t = Inr c \<and> c \<noteq> code" by simp
        with L show ?thesis by (intro step) simp_all
      qed
    qed
  qed
qed

lemma forLoop_match_iff:
  assumes "tMax \<noteq> maxInt"
  shows "forLoop tc hp d code tMax t = Some (Inr (Some t0)) \<longleftrightarrow>
     (t \<le>s t0 \<and> t0 \<le>s tMax \<and> LastT tc <s t0 \<and> HOTPCode hp (Key tc) d t0 = Inr code \<and>
      (\<forall>t'. t \<le>s t' \<and> t' <s t0 \<and> LastT tc <s t' \<longrightarrow> (\<exists>c. HOTPCode hp (Key tc) d t' = Inr c \<and> c \<noteq> code)))"
    (is "?L \<longleftrightarrow> ?R")
proof
  assume "?R"
  then show "?L" by (intro forLoop_first_match) blast+
next
  assume L: "?L"
  from forLoop_match_only_if [OF assms L] forLoop_Some_sound [OF L]
  show "?R" by blast
qed

lemma forLoop_panic_above_floor:
  assumes "forLoop tc hp d code tMax t = Some (Inl p)"
  shows "\<exists>t'. LastT tc <s t' \<and> HOTPCode hp (Key tc) d t' = Inl p"
proof -
  have "y = Inl p \<longrightarrow> (\<exists>t'. LastT tc <s t' \<and> HOTPCode hp (Key tc) d t' = Inl p)"
    if h: "forLoop tc hp d code tMax t = Some y" for y
  proof (rule forLoop.raw_induct
      [where P = "\<lambda>tc hp d code tMax t y.
         y = Inl p \<longrightarrow> (\<exists>t'. LastT tc <s t' \<and> HOTPCode hp (Key tc) d t' = Inl p)", OF _ h])
    fix f tc hp d code tMax t y
    assume IH: "\<And>tc hp d code tMax t y. f tc hp d code tMax t = Some y \<Longrightarrow>
        y = Inl p \<longrightarrow> (\<exists>t'. LastT tc <s t' \<and> HOTPCode hp (Key tc) d t' = Inl p)"
      and step: "(if t \<le>s tMax
        then if t \<le>s LastT tc then f tc hp d code tMax (t + 1)
             else case HOTPCode hp (Key tc) d t of
                    Inl p \<Rightarrow> Some (Inl p)
                  | Inr c \<Rightarrow> if c = code then Some (Inr (Some t)) else f tc hp d code tMax (t + 1)
        else Some (Inr None)) = Some y"
    show "y = Inl p \<longrightarrow> (\<exists>t'. LastT tc <s t' \<and> HOTPCode hp (Key tc) d t' = Inl p)"
    proof (cases "t \<le>s tMax \<and> \<not> t \<le>s LastT tc")
      case True
      then have "LastT tc <s t" by (simp add: word_sle_eq word_sless_alt)
      then show ?thesis
        using step True IH [of tc hp d code tMax "t + 1" y]
        by (auto split: if_splits sum.splits)
    next
      case False
      then show ?thesis
        using step IH [of tc hp d code tMax "t + 1" y]
        by (auto split: if_splits)
    qed
  qed
  with assms show ?thesis by simp
qed

text \<open>With \<open>tMax\<close> the largest \<open>int\<close> the loop condition holds at every counter: the loop
  is never left through its condition.\<close>

lemma forLoop_maxInt_no_exit:
  assumes "forLoop tc hp d code maxInt t = Some y"
  shows "y \<noteq> Inr None"
proof -
  have "tMax = maxInt \<longrightarrow> y \<noteq> Inr None"
    if h: "forLoop tc hp d code tMax t = Some y" for tMax y
  proof (rule forLoop.raw_induct
      [where P = "\<lambda>tc hp d code tMax t y. tMax = maxInt \<longrightarrow> y \<noteq> Inr None", OF _ h])
    fix f tc hp d code tMax t y
    assume IH: "\<And>tc hp d code tMax t y. f tc hp d code tMax t = Some y \<Longrightarrow>
        tMax = maxInt \<longrightarrow> y \<noteq> Inr None"
      and step: "(if t \<le>s tMax
        then if t \<le>s LastT tc then f tc hp d code tMax (t + 1)
             else case HOTPCode hp (Key tc) d t of
                    Inl p \<Rightarrow> Some (Inl p)
                  | Inr c \<Rightarrow> if c = code then Some (Inr (Some t)) else f tc hp d code tMax (t + 1)
        else Some (Inr None)) = Some y"
    show "tMax = maxInt \<longrightarrow> y \<noteq> Inr None"
    proof
      assume m: "tMax = maxInt"
      have "t \<le>s tMax" unfolding m using sint_le_maxInt [of t] by (simp add: word_sle_eq sint_maxInt)
      then show "y \<noteq> Inr None"
        using step m IH [of tc hp d code tMax "t + 1" y]
        by (auto split: if_splits sum.splits)
    qed
  qed
  with assms show ?thesis by simp
qed

section \<open>HOTPCode and timeSteps\<close>

lemma rfc4226_less: "0 < n \<Longrightarrow> rfc4226 hp key n c < n"
  by (simp add: rfc4226_def Let_def)

lemma HOTPCode_zero_digits:
  assumes "\<forall>m. 20 \<le> length (hashSum hp m)"
  shows "HOTPCode (Some hp) key 0 v = Inl DivideByZero"
proof -
  define sum where "sum = hmacSum hp key (PutUint64 v)"
  have l20: "20 \<le> length sum" unfolding sum_def using assms by (rule hmacSum_length)
  then have ne: "sum \<noteq> []" by auto
  have "unat (last sum AND 0x0f) = unat (last sum) mod 16" by (rule unat_and_0f)
  then have "unat (last sum AND 0x0f) < 16" by simp
  with l20 have "\<not> length (sum @ sumSpare hp key (PutUint64 v)) < unat (last sum AND 0x0f) + 4"
    by simp
  with ne show ?thesis
    by (simp add: HOTPCode_def Let_def sum_def [symmetric])
qed

lemma HOTPCode_not_DivideByZero: "digits \<noteq> 0 \<Longrightarrow> HOTPCode hp key digits v \<noteq> Inl DivideByZero"
  by (simp add: HOTPCode_def Let_def split: option.splits)

lemma digitsOf_nonzero: "digitsOf tc \<noteq> 0"
  by (simp add: digitsOf_def SixDigits_def)

lemma stepOf_nonzero: "stepOf tc \<noteq> 0"
  by (simp add: stepOf_def DefaultStepSizeSeconds_def)

lemma timeSteps_Inr: "stepSize \<noteq> 0 \<Longrightarrow> timeSteps stepSize t = Inr (sdiv64 (Unix t) stepSize)"
  by (simp add: timeSteps_def)

lemma sdiv64_truncDiv:
  assumes "0 <s b"
  shows "sint (sdiv64 a b) = truncDiv (sint a) (sint b)"
proof -
  have b: "0 < sint b" using assms by (simp add: word_sless_alt)
  have q: "sint a sdiv sint b = truncDiv (sint a) (sint b)"
    using b by (simp add: signed_divide_int_def truncDiv_def sgn_if)
  have lo: "- (2 ^ 63) \<le> sint a" using sint_ge [of a] by simp
  have hi: "sint a < 2 ^ 63" using sint_lt [of a] by simp
  have r: "- (2 ^ 63) \<le> truncDiv (sint a) (sint b) \<and> truncDiv (sint a) (sint b) < 2 ^ 63"
  proof (cases "0 \<le> sint a")
    case True
    then have "sint a div sint b \<le> sint a div 1" using b by (intro zdiv_mono2) simp_all
    then have "sint a div sint b \<le> sint a" by simp
    moreover have "0 \<le> sint a div sint b" using True b by (simp add: pos_imp_zdiv_nonneg_iff)
    ultimately show ?thesis using True hi by (simp add: truncDiv_def)
  next
    case False
    then have n: "0 \<le> - sint a" by simp
    then have "(- sint a) div sint b \<le> (- sint a) div 1" using b by (intro zdiv_mono2) simp_all
    then have "(- sint a) div sint b \<le> - sint a" by simp
    moreover have "0 \<le> (- sint a) div sint b" using n b by (simp add: pos_imp_zdiv_nonneg_iff)
    ultimately show ?thesis using False lo by (simp add: truncDiv_def)
  qed
  have "sint (sdiv64 a b) = signed_take_bit 63 (truncDiv (sint a) (sint b))"
    by (simp add: sdiv64_def q sint_sbintrunc')
  also have "\<dots> = truncDiv (sint a) (sint b)"
    using r by (intro signed_take_bit_int_eq_self) simp_all
  finally show ?thesis .
qed

section \<open>ValidateTOTPCode\<close>

lemma ValidateTOTPCode_unfold:
  assumes "timeSteps (stepOf tc) (Add now (- PastTolerance tc)) = Inr tMin"
    and "timeSteps (stepOf tc) (Add now (FutureTolerance tc)) = Inr tMax"
    and "timeSteps (stepOf tc) now = Inr cur"
  shows "ValidateTOTPCode sha1New tc now code =
     (case forLoop tc (hashOf sha1New tc) (digitsOf tc) code tMax tMin of
        None \<Rightarrow> None
      | Some (Inl p) \<Rightarrow> Some (Inl p)
      | Some (Inr (Some t)) \<Rightarrow> Some (Inr ((True, t), tc))
      | Some (Inr None) \<Rightarrow> Some (Inr ((False, cur), tc)))"
  using assms
  by (simp add: ValidateTOTPCode_def Let_def hashOf_def [symmetric] digitsOf_def [symmetric]
      stepOf_def [symmetric] split: option.splits sum.splits)

lemma window_exists:
  "\<exists>tMin tMax cur. timeSteps (stepOf tc) (Add now (- PastTolerance tc)) = Inr tMin \<and>
     timeSteps (stepOf tc) (Add now (FutureTolerance tc)) = Inr tMax \<and>
     timeSteps (stepOf tc) now = Inr cur"
  by (simp add: timeSteps_Inr stepOf_nonzero)

lemma validator_handed_back:
  "ValidateTOTPCode sha1New tc now code = Some (Inr (r, tc')) \<Longrightarrow> tc' = tc"
proof -
  assume a: "ValidateTOTPCode sha1New tc now code = Some (Inr (r, tc'))"
  obtain tMin tMax cur where w: "timeSteps (stepOf tc) (Add now (- PastTolerance tc)) = Inr tMin"
     "timeSteps (stepOf tc) (Add now (FutureTolerance tc)) = Inr tMax"
     "timeSteps (stepOf tc) now = Inr cur"
    using window_exists by blast
  show ?thesis
    using a unfolding ValidateTOTPCode_unfold [OF w]
    by (auto split: option.splits sum.splits)
qed

lemma ValidateTOTPCode_True_iff:
  assumes "timeSteps (stepOf tc) (Add now (- PastTolerance tc)) = Inr tMin"
    and "timeSteps (stepOf tc) (Add now (FutureTolerance tc)) = Inr tMax"
  shows "ValidateTOTPCode sha1New tc now code = Some (Inr ((True, t), tc)) \<longleftrightarrow>
     forLoop tc (hashOf sha1New tc) (digitsOf tc) code tMax tMin = Some (Inr (Some t))"
proof -
  have c: "timeSteps (stepOf tc) now = Inr (sdiv64 (Unix now) (stepOf tc))"
    by (simp add: timeSteps_Inr stepOf_nonzero)
  show ?thesis
    unfolding ValidateTOTPCode_unfold [OF assms c]
    by (auto split: option.splits sum.splits)
qed

lemma ValidateTOTPCode_False:
  assumes "timeSteps (stepOf tc) (Add now (- PastTolerance tc)) = Inr tMin"
    and "timeSteps (stepOf tc) (Add now (FutureTolerance tc)) = Inr tMax"
    and "timeSteps (stepOf tc) now = Inr cur"
    and "forLoop tc (hashOf sha1New tc) (digitsOf tc) code tMax tMin = Some (Inr None)"
  shows "ValidateTOTPCode sha1New tc now code = Some (Inr ((False, cur), tc))"
  unfolding ValidateTOTPCode_unfold [OF assms(1-3)] assms(4) by simp

lemma ValidateTOTPCode_diverges:
  assumes "timeSteps (stepOf tc) (Add now (- PastTolerance tc)) = Inr tMin"
    and "timeSteps (stepOf tc) (Add now (FutureTolerance tc)) = Inr tMax"
    and "forLoop tc (hashOf sha1New tc) (digitsOf tc) code tMax tMin = None"
  shows "ValidateTOTPCode sha1New tc now code = None"
proof -
  have c: "timeSteps (stepOf tc) now = Inr (sdiv64 (Unix now) (stepOf tc))"
    by (simp add: timeSteps_Inr stepOf_nonzero)
  show ?thesis
    unfolding ValidateTOTPCode_unfold [OF assms(1,2) c] assms(3) by simp
qed

lemma first_match_returns:
  assumes "timeSteps (stepOf tc) (Add now (- PastTolerance tc)) = Inr tMin"
    and "timeSteps (stepOf tc) (Add now (FutureTolerance tc)) = Inr tMax"
    and "tMin \<le>s t" "t \<le>s tMax" "LastT tc <s t" "codeAt sha1New tc t = Inr code"
    and "\<forall>t'. tMin \<le>s t' \<and> t' <s t \<and> LastT tc <s t' \<longrightarrow>
           (\<exists>c. codeAt sha1New tc t' = Inr c \<and> c \<noteq> code)"
  shows "ValidateTOTPCode sha1New tc now code = Some (Inr ((True, t), tc))"
  unfolding ValidateTOTPCode_True_iff [OF assms(1,2)]
  using assms(3-7) unfolding codeAt_def by (rule forLoop_first_match)

text \<open>
  Where the window ends below the largest \<open>int\<close> the loop runs through it once, and the
  call is decided by the codes of the window: it returns \<open>(true, t)\<close> exactly for the first
  counter above \<open>LastT\<close> that generates the candidate code, and \<open>false\<close> with the current
  time step when every counter of the window above \<open>LastT\<close> generates another code (also
  when the window is empty or lies at or below \<open>LastT\<close>). The first of the two
  directions of the equivalence, \<open>first_match_returns\<close>, needs no bound on \<open>tMax\<close>.
\<close>

lemma first_match_iff_below_maxInt:
  assumes "timeSteps (stepOf tc) (Add now (- PastTolerance tc)) = Inr tMin"
    and "timeSteps (stepOf tc) (Add now (FutureTolerance tc)) = Inr tMax"
    and "tMax \<noteq> maxInt"
  shows "ValidateTOTPCode sha1New tc now code = Some (Inr ((True, t), tc)) \<longleftrightarrow>
     (tMin \<le>s t \<and> t \<le>s tMax \<and> LastT tc <s t \<and> codeAt sha1New tc t = Inr code \<and>
      (\<forall>t'. tMin \<le>s t' \<and> t' <s t \<and> LastT tc <s t' \<longrightarrow>
            (\<exists>c. codeAt sha1New tc t' = Inr c \<and> c \<noteq> code)))"
  unfolding ValidateTOTPCode_True_iff [OF assms(1,2)] codeAt_def
  by (rule forLoop_match_iff [OF assms(3)])

lemma no_match_returns_false:
  assumes "timeSteps (stepOf tc) (Add now (- PastTolerance tc)) = Inr tMin"
    and "timeSteps (stepOf tc) (Add now (FutureTolerance tc)) = Inr tMax"
    and "timeSteps (stepOf tc) now = Inr cur"
    and "tMax \<noteq> maxInt"
    and "\<forall>t'. tMin \<le>s t' \<and> t' \<le>s tMax \<and> LastT tc <s t' \<longrightarrow>
           (\<exists>c. codeAt sha1New tc t' = Inr c \<and> c \<noteq> code)"
  shows "ValidateTOTPCode sha1New tc now code = Some (Inr ((False, cur), tc))"
proof -
  have "forLoop tc (hashOf sha1New tc) (digitsOf tc) code tMax tMin = Some (Inr None)"
    using assms(4) assms(5) [unfolded codeAt_def] by (rule forLoop_no_match)
  with assms(1-3) show ?thesis by (rule ValidateTOTPCode_False)
qed

section \<open>The code on the inputs\<close>

lemma sha1Schedule_numeral:
  "sha1Schedule (numeral k) ws =
     sha1Schedule (pred_numeral k) (rotl 1 (ws ! 2 XOR ws ! 7 XOR ws ! 13 XOR ws ! 15) # ws)"
  by (simp add: numeral_eq_Suc)

lemma sha1Blocks_numeral:
  "sha1Blocks (numeral k) h m = sha1Blocks (pred_numeral k) (sha1Block h (take 64 m)) (drop 64 m)"
  by (simp add: numeral_eq_Suc)

lemma pad_numeral: "replicate (numeral n) (b :: byte) = b # replicate (pred_numeral n) b"
  by (simp add: numeral_eq_Suc)

lemmas sha1_eval = sha1Sum_def sha1Pad_def PutUint64_def PutUint32_def Uint32_def rotl_def
  sha1Schedule_numeral sha1Blocks_numeral pad_numeral

text \<open>The digest of \<open>"abc"\<close>, the first example of the standard.\<close>

lemma sha1_abc:
  "sha1Sum [0x61, 0x62, 0x63] =
     [0xA9, 0x99, 0x3E, 0x36, 0x47, 0x06, 0x81, 0x6A, 0xBA, 0x3E,
      0x25, 0x71, 0x78, 0x50, 0xC2, 0x6C, 0x9C, 0xD0, 0xD8, 0x9D]"
  by (simp add: sha1_eval)

lemma sha1_spare: "sumSpare sha1_New key msg = [0, 0, 0, 0]"
  by (simp add: sha1_New_def pad_numeral)

lemma sha1_length: "\<forall>m. 20 \<le> length (hashSum sha1_New m)"
  by (simp add: sha1_New_def sha1Sum_def PutUint32_def Let_def split: prod.splits)

text \<open>
  The codes of the key of the tests at the counters used below, each through the two
  hashes of the HMAC: the counter 0 of RFC 4226 (\<open>TestRFC4226\<close>), a negative counter,
  two neighbours with the same code, the time steps around second 1111111109 of RFC 6238
  (\<open>TestRFC6238\<close>, \<open>TestTOTPValidator\<close>, \<open>Example\<close>), and the two ends of \<open>int\<close>.
\<close>

lemma sha1_inner_0:
  "sha1Sum
    [7, 4, 5, 2, 3, 0, 1, 14, 15, 6, 7, 4, 5, 2, 3, 0,
     1, 14, 15, 6, 54, 54, 54, 54, 54, 54, 54, 54, 54, 54, 54, 54,
     54, 54, 54, 54, 54, 54, 54, 54, 54, 54, 54, 54, 54, 54, 54, 54,
     54, 54, 54, 54, 54, 54, 54, 54, 54, 54, 54, 54, 54, 54, 54, 54,
     0, 0, 0, 0, 0, 0, 0, 0] =
    [8, 145, 217, 190, 9, 187, 22, 199, 200, 114, 45, 243, 104, 216, 99, 80,
     102, 126, 73, 158]"
  by (simp add: sha1_eval)

lemma sha1_outer_0:
  "sha1Sum
    [109, 110, 111, 104, 105, 106, 107, 100, 101, 108, 109, 110, 111, 104, 105, 106,
     107, 100, 101, 108, 92, 92, 92, 92, 92, 92, 92, 92, 92, 92, 92, 92,
     92, 92, 92, 92, 92, 92, 92, 92, 92, 92, 92, 92, 92, 92, 92, 92,
     92, 92, 92, 92, 92, 92, 92, 92, 92, 92, 92, 92, 92, 92, 92, 92,
     8, 145, 217, 190, 9, 187, 22, 199, 200, 114, 45, 243, 104, 216, 99, 80,
     102, 126, 73, 158] =
    [204, 147, 207, 24, 80, 141, 148, 147, 76, 100, 182, 93, 139, 167, 102, 127,
     183, 205, 228, 176]"
  by (simp add: sha1_eval)

lemma counter_bytes_0: "PutUint64 0 = [0, 0, 0, 0, 0, 0, 0, 0]"
  by (simp add: PutUint64_def)

lemma hmac_sha1_0:
  "hmacSum sha1_New rfcKey [0, 0, 0, 0, 0, 0, 0, 0] =
    [204, 147, 207, 24, 80, 141, 148, 147, 76, 100, 182, 93, 139, 167, 102, 127,
     183, 205, 228, 176]"
  by (simp add: hmacSum_def hmacKeyBlock_def sha1_New_def rfcKey_def
      pad_numeral sha1_inner_0 sha1_outer_0)

lemma sha1_code_0: "HOTPCode (Some sha1_New) rfcKey 1000000 0 = Inr 755224"
  by (simp add: HOTPCode_def counter_bytes_0 hmac_sha1_0 Uint32_def sha1_spare)

lemma sha1_inner_m2:
  "sha1Sum
    [7, 4, 5, 2, 3, 0, 1, 14, 15, 6, 7, 4, 5, 2, 3, 0,
     1, 14, 15, 6, 54, 54, 54, 54, 54, 54, 54, 54, 54, 54, 54, 54,
     54, 54, 54, 54, 54, 54, 54, 54, 54, 54, 54, 54, 54, 54, 54, 54,
     54, 54, 54, 54, 54, 54, 54, 54, 54, 54, 54, 54, 54, 54, 54, 54,
     255, 255, 255, 255, 255, 255, 255, 254] =
    [72, 16, 117, 101, 109, 229, 82, 118, 19, 108, 131, 2, 196, 157, 224, 16,
     12, 60, 38, 107]"
  by (simp add: sha1_eval)

lemma sha1_outer_m2:
  "sha1Sum
    [109, 110, 111, 104, 105, 106, 107, 100, 101, 108, 109, 110, 111, 104, 105, 106,
     107, 100, 101, 108, 92, 92, 92, 92, 92, 92, 92, 92, 92, 92, 92, 92,
     92, 92, 92, 92, 92, 92, 92, 92, 92, 92, 92, 92, 92, 92, 92, 92,
     92, 92, 92, 92, 92, 92, 92, 92, 92, 92, 92, 92, 92, 92, 92, 92,
     72, 16, 117, 101, 109, 229, 82, 118, 19, 108, 131, 2, 196, 157, 224, 16,
     12, 60, 38, 107] =
    [53, 17, 69, 204, 220, 7, 76, 170, 127, 238, 197, 215, 62, 145, 231, 251,
     173, 251, 50, 179]"
  by (simp add: sha1_eval)

lemma counter_bytes_m2: "PutUint64 (- 2) = [255, 255, 255, 255, 255, 255, 255, 254]"
  by (simp add: PutUint64_def)

lemma hmac_sha1_m2:
  "hmacSum sha1_New rfcKey [255, 255, 255, 255, 255, 255, 255, 254] =
    [53, 17, 69, 204, 220, 7, 76, 170, 127, 238, 197, 215, 62, 145, 231, 251,
     173, 251, 50, 179]"
  by (simp add: hmacSum_def hmacKeyBlock_def sha1_New_def rfcKey_def
      pad_numeral sha1_inner_m2 sha1_outer_m2)

lemma sha1_code_m2: "HOTPCode (Some sha1_New) rfcKey 1000000 (- 2) = Inr 488204"
  by (simp add: HOTPCode_def counter_bytes_m2 hmac_sha1_m2 Uint32_def sha1_spare)

lemma sha1_inner_910737:
  "sha1Sum
    [7, 4, 5, 2, 3, 0, 1, 14, 15, 6, 7, 4, 5, 2, 3, 0,
     1, 14, 15, 6, 54, 54, 54, 54, 54, 54, 54, 54, 54, 54, 54, 54,
     54, 54, 54, 54, 54, 54, 54, 54, 54, 54, 54, 54, 54, 54, 54, 54,
     54, 54, 54, 54, 54, 54, 54, 54, 54, 54, 54, 54, 54, 54, 54, 54,
     0, 0, 0, 0, 0, 13, 229, 145] =
    [150, 208, 198, 115, 225, 206, 221, 121, 146, 202, 138, 40, 127, 193, 52, 253,
     29, 49, 242, 59]"
  by (simp add: sha1_eval)

lemma sha1_outer_910737:
  "sha1Sum
    [109, 110, 111, 104, 105, 106, 107, 100, 101, 108, 109, 110, 111, 104, 105, 106,
     107, 100, 101, 108, 92, 92, 92, 92, 92, 92, 92, 92, 92, 92, 92, 92,
     92, 92, 92, 92, 92, 92, 92, 92, 92, 92, 92, 92, 92, 92, 92, 92,
     92, 92, 92, 92, 92, 92, 92, 92, 92, 92, 92, 92, 92, 92, 92, 92,
     150, 208, 198, 115, 225, 206, 221, 121, 146, 202, 138, 40, 127, 193, 52, 253,
     29, 49, 242, 59] =
    [241, 218, 189, 144, 251, 1, 37, 147, 124, 28, 62, 126, 65, 252, 250, 77,
     228, 181, 31, 34]"
  by (simp add: sha1_eval)

lemma counter_bytes_910737: "PutUint64 910737 = [0, 0, 0, 0, 0, 13, 229, 145]"
  by (simp add: PutUint64_def)

lemma hmac_sha1_910737:
  "hmacSum sha1_New rfcKey [0, 0, 0, 0, 0, 13, 229, 145] =
    [241, 218, 189, 144, 251, 1, 37, 147, 124, 28, 62, 126, 65, 252, 250, 77,
     228, 181, 31, 34]"
  by (simp add: hmacSum_def hmacKeyBlock_def sha1_New_def rfcKey_def
      pad_numeral sha1_inner_910737 sha1_outer_910737)

lemma sha1_code_910737: "HOTPCode (Some sha1_New) rfcKey 1000000 910737 = Inr 911617"
  by (simp add: HOTPCode_def counter_bytes_910737 hmac_sha1_910737 Uint32_def sha1_spare)

lemma sha1_inner_910738:
  "sha1Sum
    [7, 4, 5, 2, 3, 0, 1, 14, 15, 6, 7, 4, 5, 2, 3, 0,
     1, 14, 15, 6, 54, 54, 54, 54, 54, 54, 54, 54, 54, 54, 54, 54,
     54, 54, 54, 54, 54, 54, 54, 54, 54, 54, 54, 54, 54, 54, 54, 54,
     54, 54, 54, 54, 54, 54, 54, 54, 54, 54, 54, 54, 54, 54, 54, 54,
     0, 0, 0, 0, 0, 13, 229, 146] =
    [19, 89, 147, 115, 113, 62, 151, 128, 65, 249, 33, 48, 185, 217, 127, 20,
     238, 158, 74, 108]"
  by (simp add: sha1_eval)

lemma sha1_outer_910738:
  "sha1Sum
    [109, 110, 111, 104, 105, 106, 107, 100, 101, 108, 109, 110, 111, 104, 105, 106,
     107, 100, 101, 108, 92, 92, 92, 92, 92, 92, 92, 92, 92, 92, 92, 92,
     92, 92, 92, 92, 92, 92, 92, 92, 92, 92, 92, 92, 92, 92, 92, 92,
     92, 92, 92, 92, 92, 92, 92, 92, 92, 92, 92, 92, 92, 92, 92, 92,
     19, 89, 147, 115, 113, 62, 151, 128, 65, 249, 33, 48, 185, 217, 127, 20,
     238, 158, 74, 108] =
    [175, 71, 124, 58, 151, 18, 82, 176, 0, 237, 103, 139, 35, 224, 113, 65,
     61, 70, 217, 12]"
  by (simp add: sha1_eval)

lemma counter_bytes_910738: "PutUint64 910738 = [0, 0, 0, 0, 0, 13, 229, 146]"
  by (simp add: PutUint64_def)

lemma hmac_sha1_910738:
  "hmacSum sha1_New rfcKey [0, 0, 0, 0, 0, 13, 229, 146] =
    [175, 71, 124, 58, 151, 18, 82, 176, 0, 237, 103, 139, 35, 224, 113, 65,
     61, 70, 217, 12]"
  by (simp add: hmacSum_def hmacKeyBlock_def sha1_New_def rfcKey_def
      pad_numeral sha1_inner_910738 sha1_outer_910738)

lemma sha1_code_910738: "HOTPCode (Some sha1_New) rfcKey 1000000 910738 = Inr 911617"
  by (simp add: HOTPCode_def counter_bytes_910738 hmac_sha1_910738 Uint32_def sha1_spare)

lemma sha1_inner_37037035:
  "sha1Sum
    [7, 4, 5, 2, 3, 0, 1, 14, 15, 6, 7, 4, 5, 2, 3, 0,
     1, 14, 15, 6, 54, 54, 54, 54, 54, 54, 54, 54, 54, 54, 54, 54,
     54, 54, 54, 54, 54, 54, 54, 54, 54, 54, 54, 54, 54, 54, 54, 54,
     54, 54, 54, 54, 54, 54, 54, 54, 54, 54, 54, 54, 54, 54, 54, 54,
     0, 0, 0, 0, 2, 53, 35, 235] =
    [60, 144, 139, 253, 86, 207, 216, 44, 35, 138, 251, 253, 24, 20, 194, 169,
     51, 236, 178, 75]"
  by (simp add: sha1_eval)

lemma sha1_outer_37037035:
  "sha1Sum
    [109, 110, 111, 104, 105, 106, 107, 100, 101, 108, 109, 110, 111, 104, 105, 106,
     107, 100, 101, 108, 92, 92, 92, 92, 92, 92, 92, 92, 92, 92, 92, 92,
     92, 92, 92, 92, 92, 92, 92, 92, 92, 92, 92, 92, 92, 92, 92, 92,
     92, 92, 92, 92, 92, 92, 92, 92, 92, 92, 92, 92, 92, 92, 92, 92,
     60, 144, 139, 253, 86, 207, 216, 44, 35, 138, 251, 253, 24, 20, 194, 169,
     51, 236, 178, 75] =
    [239, 80, 252, 142, 195, 213, 180, 22, 230, 97, 209, 7, 40, 105, 165, 144,
     83, 122, 117, 162]"
  by (simp add: sha1_eval)

lemma counter_bytes_37037035: "PutUint64 37037035 = [0, 0, 0, 0, 2, 53, 35, 235]"
  by (simp add: PutUint64_def)

lemma hmac_sha1_37037035:
  "hmacSum sha1_New rfcKey [0, 0, 0, 0, 2, 53, 35, 235] =
    [239, 80, 252, 142, 195, 213, 180, 22, 230, 97, 209, 7, 40, 105, 165, 144,
     83, 122, 117, 162]"
  by (simp add: hmacSum_def hmacKeyBlock_def sha1_New_def rfcKey_def
      pad_numeral sha1_inner_37037035 sha1_outer_37037035)

lemma sha1_code_37037035: "HOTPCode (Some sha1_New) rfcKey 1000000 37037035 = Inr 731029"
  by (simp add: HOTPCode_def counter_bytes_37037035 hmac_sha1_37037035 Uint32_def sha1_spare)

lemma sha1_inner_37037036:
  "sha1Sum
    [7, 4, 5, 2, 3, 0, 1, 14, 15, 6, 7, 4, 5, 2, 3, 0,
     1, 14, 15, 6, 54, 54, 54, 54, 54, 54, 54, 54, 54, 54, 54, 54,
     54, 54, 54, 54, 54, 54, 54, 54, 54, 54, 54, 54, 54, 54, 54, 54,
     54, 54, 54, 54, 54, 54, 54, 54, 54, 54, 54, 54, 54, 54, 54, 54,
     0, 0, 0, 0, 2, 53, 35, 236] =
    [166, 198, 232, 45, 21, 117, 29, 202, 193, 198, 186, 23, 31, 196, 177, 243,
     209, 11, 175, 154]"
  by (simp add: sha1_eval)

lemma sha1_outer_37037036:
  "sha1Sum
    [109, 110, 111, 104, 105, 106, 107, 100, 101, 108, 109, 110, 111, 104, 105, 106,
     107, 100, 101, 108, 92, 92, 92, 92, 92, 92, 92, 92, 92, 92, 92, 92,
     92, 92, 92, 92, 92, 92, 92, 92, 92, 92, 92, 92, 92, 92, 92, 92,
     92, 92, 92, 92, 92, 92, 92, 92, 92, 92, 92, 92, 92, 92, 92, 92,
     166, 198, 232, 45, 21, 117, 29, 202, 193, 198, 186, 23, 31, 196, 177, 243,
     209, 11, 175, 154] =
    [39, 140, 2, 229, 54, 16, 248, 76, 64, 189, 145, 53, 172, 212, 16, 16,
     18, 65, 10, 20]"
  by (simp add: sha1_eval)

lemma counter_bytes_37037036: "PutUint64 37037036 = [0, 0, 0, 0, 2, 53, 35, 236]"
  by (simp add: PutUint64_def)

lemma hmac_sha1_37037036:
  "hmacSum sha1_New rfcKey [0, 0, 0, 0, 2, 53, 35, 236] =
    [39, 140, 2, 229, 54, 16, 248, 76, 64, 189, 145, 53, 172, 212, 16, 16,
     18, 65, 10, 20]"
  by (simp add: hmacSum_def hmacKeyBlock_def sha1_New_def rfcKey_def
      pad_numeral sha1_inner_37037036 sha1_outer_37037036)

lemma sha1_code_37037036: "HOTPCode (Some sha1_New) rfcKey 1000000 37037036 = Inr 81804"
  by (simp add: HOTPCode_def counter_bytes_37037036 hmac_sha1_37037036 Uint32_def sha1_spare)

lemma sha1_inner_37037037:
  "sha1Sum
    [7, 4, 5, 2, 3, 0, 1, 14, 15, 6, 7, 4, 5, 2, 3, 0,
     1, 14, 15, 6, 54, 54, 54, 54, 54, 54, 54, 54, 54, 54, 54, 54,
     54, 54, 54, 54, 54, 54, 54, 54, 54, 54, 54, 54, 54, 54, 54, 54,
     54, 54, 54, 54, 54, 54, 54, 54, 54, 54, 54, 54, 54, 54, 54, 54,
     0, 0, 0, 0, 2, 53, 35, 237] =
    [52, 171, 63, 249, 177, 116, 109, 219, 154, 166, 108, 168, 175, 140, 142, 9,
     218, 222, 161, 32]"
  by (simp add: sha1_eval)

lemma sha1_outer_37037037:
  "sha1Sum
    [109, 110, 111, 104, 105, 106, 107, 100, 101, 108, 109, 110, 111, 104, 105, 106,
     107, 100, 101, 108, 92, 92, 92, 92, 92, 92, 92, 92, 92, 92, 92, 92,
     92, 92, 92, 92, 92, 92, 92, 92, 92, 92, 92, 92, 92, 92, 92, 92,
     92, 92, 92, 92, 92, 92, 92, 92, 92, 92, 92, 92, 92, 92, 92, 92,
     52, 171, 63, 249, 177, 116, 109, 219, 154, 166, 108, 168, 175, 140, 142, 9,
     218, 222, 161, 32] =
    [176, 9, 43, 33, 208, 72, 175, 32, 157, 160, 161, 221, 212, 152, 173, 232,
     167, 148, 135, 237]"
  by (simp add: sha1_eval)

lemma counter_bytes_37037037: "PutUint64 37037037 = [0, 0, 0, 0, 2, 53, 35, 237]"
  by (simp add: PutUint64_def)

lemma hmac_sha1_37037037:
  "hmacSum sha1_New rfcKey [0, 0, 0, 0, 2, 53, 35, 237] =
    [176, 9, 43, 33, 208, 72, 175, 32, 157, 160, 161, 221, 212, 152, 173, 232,
     167, 148, 135, 237]"
  by (simp add: hmacSum_def hmacKeyBlock_def sha1_New_def rfcKey_def
      pad_numeral sha1_inner_37037037 sha1_outer_37037037)

lemma sha1_code_37037037: "HOTPCode (Some sha1_New) rfcKey 1000000 37037037 = Inr 50471"
  by (simp add: HOTPCode_def counter_bytes_37037037 hmac_sha1_37037037 Uint32_def sha1_spare)

lemma sha1_inner_maxInt:
  "sha1Sum
    [7, 4, 5, 2, 3, 0, 1, 14, 15, 6, 7, 4, 5, 2, 3, 0,
     1, 14, 15, 6, 54, 54, 54, 54, 54, 54, 54, 54, 54, 54, 54, 54,
     54, 54, 54, 54, 54, 54, 54, 54, 54, 54, 54, 54, 54, 54, 54, 54,
     54, 54, 54, 54, 54, 54, 54, 54, 54, 54, 54, 54, 54, 54, 54, 54,
     127, 255, 255, 255, 255, 255, 255, 255] =
    [54, 99, 228, 150, 127, 213, 181, 183, 89, 145, 70, 62, 130, 225, 1, 217,
     135, 44, 136, 142]"
  by (simp add: sha1_eval)

lemma sha1_outer_maxInt:
  "sha1Sum
    [109, 110, 111, 104, 105, 106, 107, 100, 101, 108, 109, 110, 111, 104, 105, 106,
     107, 100, 101, 108, 92, 92, 92, 92, 92, 92, 92, 92, 92, 92, 92, 92,
     92, 92, 92, 92, 92, 92, 92, 92, 92, 92, 92, 92, 92, 92, 92, 92,
     92, 92, 92, 92, 92, 92, 92, 92, 92, 92, 92, 92, 92, 92, 92, 92,
     54, 99, 228, 150, 127, 213, 181, 183, 89, 145, 70, 62, 130, 225, 1, 217,
     135, 44, 136, 142] =
    [247, 180, 125, 44, 251, 161, 198, 8, 243, 151, 110, 17, 159, 189, 63, 124,
     136, 181, 90, 55]"
  by (simp add: sha1_eval)

lemma counter_bytes_maxInt: "PutUint64 maxInt = [127, 255, 255, 255, 255, 255, 255, 255]"
  by (simp add: PutUint64_def maxInt_def minInt_def)

lemma hmac_sha1_maxInt:
  "hmacSum sha1_New rfcKey [127, 255, 255, 255, 255, 255, 255, 255] =
    [247, 180, 125, 44, 251, 161, 198, 8, 243, 151, 110, 17, 159, 189, 63, 124,
     136, 181, 90, 55]"
  by (simp add: hmacSum_def hmacKeyBlock_def sha1_New_def rfcKey_def
      pad_numeral sha1_inner_maxInt sha1_outer_maxInt)

lemma sha1_code_maxInt: "HOTPCode (Some sha1_New) rfcKey 1000000 maxInt = Inr 181742"
  by (simp add: HOTPCode_def counter_bytes_maxInt hmac_sha1_maxInt Uint32_def sha1_spare)

lemma sha1_inner_minInt1:
  "sha1Sum
    [7, 4, 5, 2, 3, 0, 1, 14, 15, 6, 7, 4, 5, 2, 3, 0,
     1, 14, 15, 6, 54, 54, 54, 54, 54, 54, 54, 54, 54, 54, 54, 54,
     54, 54, 54, 54, 54, 54, 54, 54, 54, 54, 54, 54, 54, 54, 54, 54,
     54, 54, 54, 54, 54, 54, 54, 54, 54, 54, 54, 54, 54, 54, 54, 54,
     128, 0, 0, 0, 0, 0, 0, 1] =
    [29, 60, 90, 221, 51, 34, 163, 202, 69, 51, 47, 163, 137, 195, 221, 26,
     83, 150, 23, 42]"
  by (simp add: sha1_eval)

lemma sha1_outer_minInt1:
  "sha1Sum
    [109, 110, 111, 104, 105, 106, 107, 100, 101, 108, 109, 110, 111, 104, 105, 106,
     107, 100, 101, 108, 92, 92, 92, 92, 92, 92, 92, 92, 92, 92, 92, 92,
     92, 92, 92, 92, 92, 92, 92, 92, 92, 92, 92, 92, 92, 92, 92, 92,
     92, 92, 92, 92, 92, 92, 92, 92, 92, 92, 92, 92, 92, 92, 92, 92,
     29, 60, 90, 221, 51, 34, 163, 202, 69, 51, 47, 163, 137, 195, 221, 26,
     83, 150, 23, 42] =
    [127, 64, 228, 31, 73, 253, 191, 134, 123, 136, 182, 3, 209, 24, 250, 254,
     245, 82, 37, 166]"
  by (simp add: sha1_eval)

lemma counter_bytes_minInt1: "PutUint64 (minInt + 1) = [128, 0, 0, 0, 0, 0, 0, 1]"
  by (simp add: PutUint64_def maxInt_def minInt_def)

lemma hmac_sha1_minInt1:
  "hmacSum sha1_New rfcKey [128, 0, 0, 0, 0, 0, 0, 1] =
    [127, 64, 228, 31, 73, 253, 191, 134, 123, 136, 182, 3, 209, 24, 250, 254,
     245, 82, 37, 166]"
  by (simp add: hmacSum_def hmacKeyBlock_def sha1_New_def rfcKey_def
      pad_numeral sha1_inner_minInt1 sha1_outer_minInt1)

lemma sha1_code_minInt1: "HOTPCode (Some sha1_New) rfcKey 1000000 (minInt + 1) = Inr 778056"
  by (simp add: HOTPCode_def counter_bytes_minInt1 hmac_sha1_minInt1 Uint32_def sha1_spare)

text \<open>The validators of the tests, the time steps of their windows, and the counters
  that lie in them.\<close>

lemma testValidator_config:
  "stepOf (testValidator s p f l) = (if s = 0 then 30 else s)"
  "digitsOf (testValidator s p f l) = 1000000"
  "hashOf h (testValidator s p f l) = Some h"
  "Key (testValidator s p f l) = rfcKey"
  "LastT (testValidator s p f l) = l"
  "PastTolerance (testValidator s p f l) = p"
  "FutureTolerance (testValidator s p f l) = f"
  "(testValidator s p f l)\<lparr>LastT := l'\<rparr> = testValidator s p f l'"
  by (simp_all add: testValidator_def stepOf_def digitsOf_def hashOf_def SixDigits_def
      DefaultStepSizeSeconds_def)

lemma testValidator_codeAt:
  "codeAt h (testValidator s p f l) t = HOTPCode (Some h) rfcKey 1000000 t"
  by (simp add: codeAt_def testValidator_config)

lemma test_steps:
  "timeSteps 30 (Add (atSecond 1111111109) (- 30000000000)) = Inr 37037035"
  "timeSteps 30 (Add (atSecond 1111111109) 30000000000) = Inr 37037037"
  "timeSteps 30 (Add (atSecond 1111111109) 60000000000) = Inr 37037038"
  "timeSteps 30 (Add (atSecond 1111111109) 0) = Inr 37037036"
  "timeSteps 30 (atSecond 1111111109) = Inr 37037036"
  "timeSteps 30 (Add (atSecond 27322110) 0) = Inr 910737"
  "timeSteps 30 (Add (atSecond 27322110) 30000000000) = Inr 910738"
  "timeSteps 30 (atSecond 27322110) = Inr 910737"
  "timeSteps 1 (Add (atSecond maxInt) 0) = Inr maxInt"
  "timeSteps 1 (atSecond maxInt) = Inr maxInt"
  by code_simp+

lemma ends_of_int:
  "maxInt + 1 = minInt" "maxInt \<le>s maxInt" "\<not> maxInt \<le>s minInt" "minInt \<le>s maxInt"
  "minInt \<le>s minInt" "minInt + 1 \<le>s maxInt" "\<not> minInt + 1 \<le>s minInt"
  "\<not> maxInt \<le>s minInt + 1"
  by code_simp+

lemma one_counter:
  assumes "a \<le>s t" "t <s b" "sint b = sint a + 1"
  shows "t = a"
proof -
  from assms have "sint t = sint a" by (simp add: word_sle_eq word_sless_alt)
  then show ?thesis by (rule signed_word_eqI)
qed

lemma three_counters:
  assumes "a \<le>s t" "t \<le>s c" "sint b = sint a + 1" "sint c = sint a + 2"
  shows "t = a \<or> t = b \<or> t = c"
proof -
  from assms have "sint t = sint a \<or> sint t = sint b \<or> sint t = sint c"
    by (auto simp: word_sle_eq)
  then show ?thesis by (auto dest: signed_word_eqI)
qed

text \<open>The first call of \<open>Example\<close>: at second 1111111109 the code 081804 is accepted
  at the time step \<open>0x23523EC\<close>, after the step before it has generated another code.\<close>

lemma example_accepts:
  "ValidateTOTPCode sha1_New (exampleValidator 0) (atSecond 1111111109) 81804 =
     Some (Inr ((True, 37037036), exampleValidator 0))"
proof (rule first_match_returns [where tMin = 37037035 and tMax = 37037037])
  show "\<forall>t'. 37037035 \<le>s t' \<and> t' <s 37037036 \<and>
      LastT (exampleValidator 0) <s t' \<longrightarrow>
      (\<exists>c. codeAt sha1_New (exampleValidator 0) t' = Inr c \<and> c \<noteq> 81804)"
  proof (intro allI impI)
    fix t' :: int64
    assume "37037035 \<le>s t' \<and> t' <s 37037036 \<and>
      LastT (exampleValidator 0) <s t'"
    then have "t' = 37037035" by (intro one_counter [where b = 37037036]) simp_all
    then show "\<exists>c. codeAt sha1_New (exampleValidator 0) t' = Inr c \<and> c \<noteq> 81804"
      by (simp add: testValidator_codeAt sha1_code_37037035)
  qed
qed (simp_all add: testValidator_config testValidator_codeAt test_steps sha1_code_37037036
    word_sless_alt)

text \<open>Two neighbours with one code: at second 27322110, with a future tolerance of 30
  seconds, the window is the counters 910737 and 910738, which both generate 911617. The
  code is accepted at the first, and with the floor at the first it is accepted at the
  second.\<close>

lemma neighbour_accepts:
  "ValidateTOTPCode sha1_New (testValidator 0 0 30000000000 0) (atSecond 27322110) 911617 =
     Some (Inr ((True, 910737), testValidator 0 0 30000000000 0))"
  "ValidateTOTPCode sha1_New (testValidator 0 0 30000000000 910737) (atSecond 27322110) 911617 =
     Some (Inr ((True, 910738), testValidator 0 0 30000000000 910737))"
proof -
  show "ValidateTOTPCode sha1_New (testValidator 0 0 30000000000 0) (atSecond 27322110) 911617 =
     Some (Inr ((True, 910737), testValidator 0 0 30000000000 0))"
    by (rule first_match_returns [where tMin = 910737 and tMax = 910738])
      (auto simp: testValidator_config testValidator_codeAt test_steps sha1_code_910737
        word_sle_eq word_sless_alt)
  show "ValidateTOTPCode sha1_New (testValidator 0 0 30000000000 910737) (atSecond 27322110) 911617 =
     Some (Inr ((True, 910738), testValidator 0 0 30000000000 910737))"
    by (rule first_match_returns [where tMin = 910737 and tMax = 910738])
      (auto simp: testValidator_config testValidator_codeAt test_steps sha1_code_910738
        word_sle_eq word_sless_alt)
qed

text \<open>At second 1111111109: the code 266759 of the time step after the window of the
  validator of \<open>Example\<close>; the code 050471 of the last step of the window with the floor
  at that step; and any code with a negative past tolerance of a minute, which leaves the
  window from step 37037038 to step 37037036 empty.\<close>

lemma no_match_examples:
  "ValidateTOTPCode sha1_New (exampleValidator 0) (atSecond 1111111109) 266759 =
     Some (Inr ((False, 37037036), exampleValidator 0)) \<and>
   ValidateTOTPCode sha1_New (exampleValidator 37037037) (atSecond 1111111109) 50471 =
     Some (Inr ((False, 37037036), exampleValidator 37037037)) \<and>
   ValidateTOTPCode sha1_New (testValidator 0 (- 60000000000) 0 0) (atSecond 1111111109) 81804 =
     Some (Inr ((False, 37037036), testValidator 0 (- 60000000000) 0 0))"
proof -
  have ne: "(37037037 :: int64) \<noteq> maxInt" "(37037036 :: int64) \<noteq> maxInt"
    by (simp_all add: maxInt_def)
  define tc where "tc = exampleValidator 0"
  have lo: "timeSteps (stepOf tc) (Add (atSecond 1111111109) (- PastTolerance tc)) = Inr 37037035"
    by (simp add: tc_def testValidator_config test_steps)
  have hi: "timeSteps (stepOf tc) (Add (atSecond 1111111109) (FutureTolerance tc)) = Inr 37037037"
    by (simp add: tc_def testValidator_config test_steps)
  have cu: "timeSteps (stepOf tc) (atSecond 1111111109) = Inr 37037036"
    by (simp add: tc_def testValidator_config test_steps)
  have miss: "\<forall>t'. 37037035 \<le>s t' \<and> t' \<le>s 37037037 \<and> LastT tc <s t' \<longrightarrow>
      (\<exists>c. codeAt sha1_New tc t' = Inr c \<and> c \<noteq> 266759)"
  proof (intro allI impI)
    fix t' :: int64
    assume "37037035 \<le>s t' \<and> t' \<le>s 37037037 \<and> LastT tc <s t'"
    then have "t' = 37037035 \<or> t' = 37037036 \<or> t' = 37037037"
      by (intro three_counters) simp_all
    then show "\<exists>c. codeAt sha1_New tc t' = Inr c \<and> c \<noteq> 266759"
      by (auto simp: tc_def testValidator_codeAt sha1_code_37037035 sha1_code_37037036
          sha1_code_37037037)
  qed
  note a = no_match_returns_false [OF lo hi cu ne(1) miss, unfolded tc_def]
  define tf where "tf = exampleValidator 37037037"
  have lo': "timeSteps (stepOf tf) (Add (atSecond 1111111109) (- PastTolerance tf)) = Inr 37037035"
    by (simp add: tf_def testValidator_config test_steps)
  have hi': "timeSteps (stepOf tf) (Add (atSecond 1111111109) (FutureTolerance tf)) = Inr 37037037"
    by (simp add: tf_def testValidator_config test_steps)
  have cu': "timeSteps (stepOf tf) (atSecond 1111111109) = Inr 37037036"
    by (simp add: tf_def testValidator_config test_steps)
  have floor: "\<forall>t'. 37037035 \<le>s t' \<and> t' \<le>s 37037037 \<and> LastT tf <s t' \<longrightarrow>
      (\<exists>c. codeAt sha1_New tf t' = Inr c \<and> c \<noteq> 50471)"
    by (auto simp: tf_def testValidator_config word_sle_eq word_sless_alt)
  note b = no_match_returns_false [OF lo' hi' cu' ne(1) floor, unfolded tf_def]
  define te where "te = testValidator 0 (- 60000000000) 0 0"
  have lo'': "timeSteps (stepOf te) (Add (atSecond 1111111109) (- PastTolerance te)) = Inr 37037038"
    by (simp add: te_def testValidator_config test_steps)
  have hi'': "timeSteps (stepOf te) (Add (atSecond 1111111109) (FutureTolerance te)) = Inr 37037036"
    by (simp add: te_def testValidator_config test_steps)
  have cu'': "timeSteps (stepOf te) (atSecond 1111111109) = Inr 37037036"
    by (simp add: te_def testValidator_config test_steps)
  have empty: "\<forall>t'. 37037038 \<le>s t' \<and> t' \<le>s 37037036 \<and> LastT te <s t' \<longrightarrow>
      (\<exists>c. codeAt sha1_New te t' = Inr c \<and> c \<noteq> 81804)"
    by (auto simp: word_sle_eq)
  note c = no_match_returns_false [OF lo'' hi'' cu'' ne(2) empty, unfolded te_def]
  from a b c show ?thesis by (intro conjI)
qed

section \<open>The claims\<close>

text \<open>
  C1. \<open>HOTPCode\<close> follows RFC 4226: for every secret, every hash primitive whose
  digests have at least 20 bytes, every non-zero digit count and every 64-bit counter,
  negative ones included, it returns, without a panic, the value that the algorithm of the
  specification (\<open>rfc4226\<close>) computes from the integer the counter stands for: the
  8-byte big-endian two's complement of the counter is the message, the HMAC digest under
  the secret is truncated at the offset given by the low nibble of its last byte, the four
  bytes are read big-endian, the sign bit is cleared, and the result is the remainder
  modulo the digit count.
\<close>

theorem HOTPCode_follows_rfc4226:
  assumes "\<forall>m. 20 \<le> length (hashSum hp m)" and "digits \<noteq> 0"
  shows "\<exists>c. HOTPCode (Some hp) key digits v = Inr c \<and>
             sint c = int (rfc4226 hp key (unat digits) (sint v))"
  using assms by (rule HOTPCode_spec)

theorem HOTPCode_follows_rfc4226_witness:
  "(\<forall>m. 20 \<le> length (hashSum sha1_New m)) \<and> (1000000 :: Digits) \<noteq> 0 \<and>
   HOTPCode (Some sha1_New) rfcKey 1000000 0 = Inr 755224 \<and>
   rfc4226 sha1_New rfcKey 1000000 0 = 755224 \<and>
   HOTPCode (Some sha1_New) rfcKey 1000000 (- 2) = Inr 488204 \<and>
   rfc4226 sha1_New rfcKey 1000000 (- 2) = 488204"
proof -
  have d: "(1000000 :: Digits) \<noteq> 0" by simp
  from HOTPCode_follows_rfc4226 [OF sha1_length d, of rfcKey 0]
  have a: "rfc4226 sha1_New rfcKey 1000000 0 = 755224"
    by (simp add: sha1_code_0)
  from HOTPCode_follows_rfc4226 [OF sha1_length d, of rfcKey "- 2"]
  have b: "rfc4226 sha1_New rfcKey 1000000 (- 2) = 488204"
    by (simp add: sha1_code_m2)
  from a b d sha1_length show ?thesis
    by (simp add: sha1_code_0 sha1_code_m2)
qed

text \<open>
  C2. Monotonic window exclusion: whatever the validator, the time and the candidate
  code, a call of \<open>ValidateTOTPCode\<close> that returns \<open>true\<close> returns a counter strictly
  above \<open>LastT\<close>; a counter at or below the floor is never accepted, whether or not its code
  equals the candidate.
\<close>

theorem ValidateTOTPCode_above_floor:
  assumes "ValidateTOTPCode sha1New tc now code = Some (Inr ((True, t), tc'))"
  shows "LastT tc <s t"
proof -
  obtain tMin tMax cur where w: "timeSteps (stepOf tc) (Add now (- PastTolerance tc)) = Inr tMin"
     "timeSteps (stepOf tc) (Add now (FutureTolerance tc)) = Inr tMax"
     "timeSteps (stepOf tc) now = Inr cur"
    using window_exists by blast
  from assms have "forLoop tc (hashOf sha1New tc) (digitsOf tc) code tMax tMin = Some (Inr (Some t))"
    unfolding ValidateTOTPCode_unfold [OF w]
    by (auto split: option.splits sum.splits)
  then show ?thesis by (simp add: forLoop_Some_sound)
qed

text \<open>The floor at work: with the key of the tests the counters 910737 and 910738 both
  generate the code 911617. With \<open>LastT = 910737\<close> the call at second 27322110 passes
  over the counter 910737, whose code is the candidate, and accepts the code at 910738.\<close>

theorem ValidateTOTPCode_above_floor_witness:
  "codeAt sha1_New (testValidator 0 0 30000000000 910737) 910737 = Inr 911617 \<and>
   ValidateTOTPCode sha1_New (testValidator 0 0 30000000000 910737) (atSecond 27322110) 911617 =
     Some (Inr ((True, 910738), testValidator 0 0 30000000000 910737)) \<and>
   LastT (testValidator 0 0 30000000000 910737) <s 910738"
  using ValidateTOTPCode_above_floor [OF neighbour_accepts(2)] neighbour_accepts(2)
  by (simp add: testValidator_codeAt sha1_code_910737)

text \<open>
  C3. \<open>ValidateTOTPCode\<close> is to return \<open>(true, t)\<close> exactly when \<open>t\<close> is the first
  counter, in increasing order, of the window from \<open>tMin\<close> to \<open>tMax\<close> (the time steps of
  \<open>now - PastTolerance\<close> and \<open>now + FutureTolerance\<close>) that is strictly above \<open>LastT\<close> and
  generates the candidate code. The code does so wherever \<open>tMax\<close> is below the largest
  \<open>int\<close> (\<open>first_match_iff_below_maxInt\<close>), and it accepts every first match
  (\<open>first_match_returns\<close>). It breaks the claim where \<open>tMax\<close> is the largest \<open>int\<close>:
  \<open>t++\<close> wraps around, the loop condition \<open>t <= tMax\<close> stays true, and the search goes
  on outside the window. At the instant \<open>time.Unix(math.MaxInt64, 0)\<close> with a step of one
  second and no tolerance the window is the single counter \<open>maxInt\<close>, whose code is
  181742. With the floor at the least \<open>int\<close> and the candidate 778056, the code of
  \<open>minInt + 1\<close>, the call returns \<open>true\<close> with the counter \<open>minInt + 1\<close>, which is not in
  the window.
\<close>

theorem ValidateTOTPCode_accepts_outside_window:
  "timeSteps (stepOf (testValidator 1 0 0 minInt))
     (Add (atSecond maxInt) (- PastTolerance (testValidator 1 0 0 minInt))) = Inr maxInt \<and>
   timeSteps (stepOf (testValidator 1 0 0 minInt))
     (Add (atSecond maxInt) (FutureTolerance (testValidator 1 0 0 minInt))) = Inr maxInt \<and>
   ValidateTOTPCode sha1_New (testValidator 1 0 0 minInt) (atSecond maxInt) 778056 =
     Some (Inr ((True, minInt + 1), testValidator 1 0 0 minInt)) \<and>
   \<not> (maxInt \<le>s minInt + 1)"
proof -
  define tc where "tc = testValidator 1 0 0 minInt"
  have lo: "timeSteps (stepOf tc) (Add (atSecond maxInt) (- PastTolerance tc)) = Inr maxInt"
    by (simp add: tc_def testValidator_config test_steps)
  have hi: "timeSteps (stepOf tc) (Add (atSecond maxInt) (FutureTolerance tc)) = Inr maxInt"
    by (simp add: tc_def testValidator_config test_steps)
  have cfg: "hashOf sha1_New tc = Some sha1_New" "digitsOf tc = 1000000" "Key tc = rfcKey"
    "LastT tc = minInt"
    by (simp_all add: tc_def testValidator_config)
  have "forLoop tc (Some sha1_New) 1000000 778056 maxInt maxInt =
      forLoop tc (Some sha1_New) 1000000 778056 maxInt (maxInt + 1)"
    by (rule forLoop_miss [where c = 181742])
      (simp_all add: cfg ends_of_int sha1_code_maxInt)
  also have "\<dots> = forLoop tc (Some sha1_New) 1000000 778056 maxInt (minInt + 1)"
    unfolding ends_of_int(1) by (rule forLoop_skip) (simp_all add: cfg ends_of_int)
  also have "\<dots> = Some (Inr (Some (minInt + 1)))"
    by (rule forLoop_hit) (simp_all add: cfg ends_of_int sha1_code_minInt1)
  finally have "ValidateTOTPCode sha1_New tc (atSecond maxInt) 778056 =
      Some (Inr ((True, minInt + 1), tc))"
    unfolding ValidateTOTPCode_True_iff [OF lo hi] cfg .
  with lo hi ends_of_int(8) show ?thesis by (simp add: tc_def)
qed




text \<open>
  C5. Range: for every non-zero digit count \<open>d\<close>, every secret, every hash primitive
  whose digests have at least 20 bytes and every counter, \<open>HOTPCode\<close> returns a code
  between 0 and \<open>d - 1\<close>.
\<close>

theorem HOTPCode_range:
  assumes "\<forall>m. 20 \<le> length (hashSum hp m)" and "digits \<noteq> 0"
  shows "\<exists>c. HOTPCode (Some hp) key digits v = Inr c \<and> 0 \<le> sint c \<and> sint c \<le> uint digits - 1"
proof -
  from HOTPCode_spec [OF assms] obtain c where c: "HOTPCode (Some hp) key digits v = Inr c"
    and s: "sint c = int (rfc4226 hp key (unat digits) (sint v))"
    by blast
  have "0 < unat digits" using assms(2) by (simp add: unat_gt_0)
  then have "rfc4226 hp key (unat digits) (sint v) < unat digits" by (rule rfc4226_less)
  moreover have "uint digits = int (unat digits)" by simp
  ultimately have "sint c < uint digits" unfolding s by (simp only: of_nat_less_iff)
  moreover have "0 \<le> sint c" unfolding s by simp
  ultimately show ?thesis using c by auto
qed

theorem HOTPCode_range_witness:
  "(\<forall>m. 20 \<le> length (hashSum sha1_New m)) \<and> (1000000 :: Digits) \<noteq> 0 \<and>
   HOTPCode (Some sha1_New) rfcKey 1000000 0 = Inr 755224 \<and>
   (\<exists>c. HOTPCode (Some sha1_New) rfcKey 1000000 0 = Inr c \<and> 0 \<le> sint c \<and> sint c \<le> 999999)"
proof -
  have d: "(1000000 :: Digits) \<noteq> 0" by simp
  from HOTPCode_range [OF sha1_length d, of rfcKey 0] sha1_length d sha1_code_0
  show ?thesis by simp
qed

text \<open>
  C6. When no counter of the searched window matches, \<open>ValidateTOTPCode\<close> is to return
  \<open>false\<close> with the current time step, also for an empty window and for a window at or
  below the floor. The code does so wherever \<open>tMax\<close> is below the largest \<open>int\<close>
  (\<open>no_match_returns_false\<close>). It breaks the claim where \<open>tMax\<close> is the largest \<open>int\<close>:
  the loop is not left through its condition, so without a match the statement
  \<open>return false, timeSteps(stepSizeSeconds, now)\<close> is never reached. At the instant
  \<open>time.Unix(math.MaxInt64, 0)\<close> with a step of one second, no tolerance and the floor at
  the largest \<open>int\<close>, the window is the single counter \<open>maxInt\<close>, at the floor, and the
  call has no result.
\<close>

theorem ValidateTOTPCode_never_returns:
  "timeSteps (stepOf (testValidator 1 0 0 maxInt))
     (Add (atSecond maxInt) (- PastTolerance (testValidator 1 0 0 maxInt))) = Inr maxInt \<and>
   timeSteps (stepOf (testValidator 1 0 0 maxInt))
     (Add (atSecond maxInt) (FutureTolerance (testValidator 1 0 0 maxInt))) = Inr maxInt \<and>
   LastT (testValidator 1 0 0 maxInt) = maxInt \<and>
   ValidateTOTPCode sha1_New (testValidator 1 0 0 maxInt) (atSecond maxInt) 181742 = None"
proof -
  define tc where "tc = testValidator 1 0 0 maxInt"
  have lo: "timeSteps (stepOf tc) (Add (atSecond maxInt) (- PastTolerance tc)) = Inr maxInt"
    by (simp add: tc_def testValidator_config test_steps)
  have hi: "timeSteps (stepOf tc) (Add (atSecond maxInt) (FutureTolerance tc)) = Inr maxInt"
    by (simp add: tc_def testValidator_config test_steps)
  have fl: "LastT tc = maxInt" by (simp add: tc_def testValidator_config)
  have top: "\<not> maxInt <s t" for t
    using sint_le_maxInt [of t] by (simp add: word_sless_alt sint_maxInt)
  have "forLoop tc (hashOf sha1_New tc) (digitsOf tc) 181742 maxInt maxInt = None"
  proof (cases "forLoop tc (hashOf sha1_New tc) (digitsOf tc) 181742 maxInt maxInt")
    case None
    then show ?thesis .
  next
    case (Some y)
    show ?thesis
    proof (cases y)
      case (Inl p)
      with Some forLoop_panic_above_floor [of tc "hashOf sha1_New tc" "digitsOf tc" 181742 maxInt maxInt p]
      show ?thesis by (simp add: fl top)
    next
      case (Inr r)
      show ?thesis
      proof (cases r)
        case None
        with Some Inr forLoop_maxInt_no_exit [of tc "hashOf sha1_New tc" "digitsOf tc" 181742 maxInt y]
        show ?thesis by simp
      next
        case (Some t0)
        with \<open>forLoop tc (hashOf sha1_New tc) (digitsOf tc) 181742 maxInt maxInt = Some y\<close> Inr
          forLoop_Some_sound [of tc "hashOf sha1_New tc" "digitsOf tc" 181742 maxInt maxInt t0]
        show ?thesis by (simp add: fl top)
      qed
    qed
  qed
  with lo hi have "ValidateTOTPCode sha1_New tc (atSecond maxInt) 181742 = None"
    by (rule ValidateTOTPCode_diverges)
  with lo hi fl show ?thesis by (simp add: tc_def)
qed

text \<open>
  C7. Defaults: a validator whose hash provider is nil, whose digit count is zero or
  whose step size is zero is answered by \<open>ValidateTOTPCode\<close> as the validator with SHA-1,
  six digits (the modulus 1000000) and a step of 30 seconds in the place of each unset
  field, the fields being defaulted independently of each other. The two calls return the
  same pair, panic the same way or both fail to return.
\<close>

theorem ValidateTOTPCode_defaults:
  "returned (ValidateTOTPCode sha1New tc now code) =
   returned (ValidateTOTPCode sha1New (withDefaults sha1New tc) now code)"
proof -
  define td where "td = withDefaults sha1New tc"
  have same: "stepOf td = stepOf tc" "digitsOf td = digitsOf tc"
    "hashOf sha1New td = hashOf sha1New tc" "Key td = Key tc" "LastT td = LastT tc"
    "PastTolerance td = PastTolerance tc" "FutureTolerance td = FutureTolerance tc"
    by (simp_all add: td_def withDefaults_def stepOf_def digitsOf_def hashOf_def SixDigits_def
        DefaultStepSizeSeconds_def split: option.splits)
  obtain tMin tMax cur where w: "timeSteps (stepOf tc) (Add now (- PastTolerance tc)) = Inr tMin"
     "timeSteps (stepOf tc) (Add now (FutureTolerance tc)) = Inr tMax"
     "timeSteps (stepOf tc) now = Inr cur"
    using window_exists by blast
  have w': "timeSteps (stepOf td) (Add now (- PastTolerance td)) = Inr tMin"
     "timeSteps (stepOf td) (Add now (FutureTolerance td)) = Inr tMax"
     "timeSteps (stepOf td) now = Inr cur"
    using w by (simp_all add: same)
  have loop: "forLoop td (hashOf sha1New td) (digitsOf td) code tMax tMin =
      forLoop tc (hashOf sha1New tc) (digitsOf tc) code tMax tMin"
    unfolding same(2,3) by (rule forLoop_cong) (simp_all add: same)
  show ?thesis
    unfolding td_def [symmetric] ValidateTOTPCode_unfold [OF w] ValidateTOTPCode_unfold [OF w'] loop
    by (simp add: returned_def split: option.splits sum.splits)
qed

theorem ValidateTOTPCode_defaults_witness:
  "withDefaults sha1_New (exampleValidator 0) =
     \<lparr>Key = rfcKey, StepSizeSeconds = 30, PastTolerance = 30000000000,
      FutureTolerance = 30000000000, LastT = 0, HashProvider = Some sha1_New,
      Digits = 1000000\<rparr> \<and>
   returned (ValidateTOTPCode sha1_New (exampleValidator 0) (atSecond 1111111109) 81804) =
     Some (Inr (True, 37037036)) \<and>
   returned (ValidateTOTPCode sha1_New
     \<lparr>Key = rfcKey, StepSizeSeconds = 30, PastTolerance = 30000000000,
      FutureTolerance = 30000000000, LastT = 0, HashProvider = Some sha1_New,
      Digits = 1000000\<rparr> (atSecond 1111111109) 81804) = Some (Inr (True, 37037036))"
proof -
  have d: "withDefaults sha1_New (exampleValidator 0) =
     \<lparr>Key = rfcKey, StepSizeSeconds = 30, PastTolerance = 30000000000,
      FutureTolerance = 30000000000, LastT = 0, HashProvider = Some sha1_New,
      Digits = 1000000\<rparr>"
    by (simp add: withDefaults_def testValidator_def)
  have r: "returned (ValidateTOTPCode sha1_New (exampleValidator 0) (atSecond 1111111109) 81804) =
      Some (Inr (True, 37037036))"
    by (simp add: example_accepts returned_def)
  from ValidateTOTPCode_defaults [of sha1_New "exampleValidator 0" "atSecond 1111111109" 81804] d r
  show ?thesis by simp
qed

text \<open>
  C8. \<open>timeSteps\<close>: for every positive step size and every instant, before the Unix
  epoch or after, the call does not panic and returns the Unix seconds of the instant
  divided by the step size with the quotient truncated towards zero.
\<close>

theorem timeSteps_truncates:
  assumes "0 <s stepSize"
  shows "\<exists>q. timeSteps stepSize t = Inr q \<and> sint q = truncDiv (sint (Unix t)) (sint stepSize)"
proof -
  have "stepSize \<noteq> 0" using assms by (auto simp: word_sless_alt)
  then have "timeSteps stepSize t = Inr (sdiv64 (Unix t) stepSize)" by (rule timeSteps_Inr)
  moreover have "sint (sdiv64 (Unix t) stepSize) = truncDiv (sint (Unix t)) (sint stepSize)"
    using assms by (rule sdiv64_truncDiv)
  ultimately show ?thesis by blast
qed

theorem timeSteps_truncates_witness:
  "0 <s (30 :: int64) \<and> timeSteps 30 (atSecond (- 59)) = Inr (- 1) \<and>
   truncDiv (sint (Unix (atSecond (- 59)))) (sint (30 :: int64)) = - 1 \<and>
   (- 59 :: int) div 30 = - 2"
proof -
  have p: "0 <s (30 :: int64)" by (simp add: word_sless_alt)
  from timeSteps_truncates [OF p, of "atSecond (- 59)"]
  obtain q where q: "timeSteps 30 (atSecond (- 59)) = Inr q"
    and s: "sint q = truncDiv (sint (Unix (atSecond (- 59)))) (sint (30 :: int64))"
    by blast
  have t: "truncDiv (sint (Unix (atSecond (- 59)))) (sint (30 :: int64)) = - 1"
    by (simp add: truncDiv_def Unix_def atSecond_def)
  with s have "sint q = sint (- 1 :: int64)" by simp
  then have "q = - 1" by (rule signed_word_eqI)
  with q p t show ?thesis by simp
qed

text \<open>
  C9. Frame: \<open>ValidateTOTPCode\<close> writes to no field of the validator. Whatever the
  validator, the time and the code, a call that returns, with a match or without, leaves
  the validator as it was given; the floor moves only if the caller assigns the returned
  counter to \<open>LastT\<close>.
\<close>

theorem ValidateTOTPCode_frame:
  assumes "ValidateTOTPCode sha1New tc now code = Some (Inr (r, tc'))"
  shows "tc' = tc"
  using assms by (rule validator_handed_back)

theorem ValidateTOTPCode_frame_witness:
  "\<exists>tc'. ValidateTOTPCode sha1_New (exampleValidator 0) (atSecond 1111111109) 81804 =
           Some (Inr ((True, 37037036), tc')) \<and>
         tc' = exampleValidator 0"
  using ValidateTOTPCode_frame [OF example_accepts] example_accepts
  by simp

text \<open>
  C10. The standalone generators apply no defaults. \<open>HOTPCode\<close> with the digit count 0
  (and a hash primitive with digests of at least 20 bytes, so that the truncation is
  passed) panics at the remainder by zero; \<open>TOTPCode\<close> with the step size 0 panics at
  the division by zero in \<open>timeSteps\<close>, before any hashing and whatever the other
  arguments. \<open>ValidateTOTPCode\<close> never panics with a division by zero, whatever the
  validator: it alone replaces a zero digit count and a zero step size by its defaults.
\<close>

theorem standalone_generators_no_defaults:
  assumes "\<forall>m. 20 \<le> length (hashSum hp m)"
  shows "HOTPCode (Some hp) key 0 v = Inl DivideByZero \<and>
         TOTPCode hashProvider key digits 0 t = Inl DivideByZero \<and>
         ValidateTOTPCode sha1New tc now code \<noteq> Some (Inl DivideByZero)"
proof (intro conjI)
  show "HOTPCode (Some hp) key 0 v = Inl DivideByZero"
    using assms by (rule HOTPCode_zero_digits)
  show "TOTPCode hashProvider key digits 0 t = Inl DivideByZero"
    by (simp add: TOTPCode_def timeSteps_def)
  show "ValidateTOTPCode sha1New tc now code \<noteq> Some (Inl DivideByZero)"
  proof
    assume a: "ValidateTOTPCode sha1New tc now code = Some (Inl DivideByZero)"
    obtain tMin tMax cur where w: "timeSteps (stepOf tc) (Add now (- PastTolerance tc)) = Inr tMin"
       "timeSteps (stepOf tc) (Add now (FutureTolerance tc)) = Inr tMax"
       "timeSteps (stepOf tc) now = Inr cur"
      using window_exists by blast
    from a have "forLoop tc (hashOf sha1New tc) (digitsOf tc) code tMax tMin = Some (Inl DivideByZero)"
      unfolding ValidateTOTPCode_unfold [OF w]
      by (auto split: option.splits sum.splits)
    then obtain t' where "HOTPCode (hashOf sha1New tc) (Key tc) (digitsOf tc) t' = Inl DivideByZero"
      using forLoop_panic_sound by blast
    with HOTPCode_not_DivideByZero [OF digitsOf_nonzero] show False by blast
  qed
qed

theorem standalone_generators_no_defaults_witness:
  "(\<forall>m. 20 \<le> length (hashSum sha1_New m)) \<and>
   HOTPCode (Some sha1_New) rfcKey 0 0 = Inl DivideByZero \<and>
   TOTPCode (Some sha1_New) rfcKey 1000000 0 (atSecond 1111111109) = Inl DivideByZero \<and>
   ValidateTOTPCode sha1_New (exampleValidator 0) (atSecond 1111111109) 81804 \<noteq> Some (Inl DivideByZero) \<and>
   Digits (exampleValidator 0) = 0 \<and> StepSizeSeconds (exampleValidator 0) = 0"
  using standalone_generators_no_defaults
    [OF sha1_length, where key = rfcKey and v = 0 and hashProvider = "Some sha1_New"
      and digits = 1000000 and t = "atSecond 1111111109" and ?sha1New = sha1_New
      and tc = "exampleValidator 0" and now = "atSecond 1111111109" and code = 81804]
    sha1_length
  by (simp add: testValidator_def)

end
